theory Spec2Isabelle
  imports Complex_Main "HOL-Library.Stream"
begin

section \<open>Python values used by app.py\<close>

text \<open>
  The dashboard's generator \<^verbatim>\<open>generate_mock_data\<close> of app.py is embedded as a
  function over explicit random sources. Python floats are idealised as reals: every
  property below is about clamping, truncation, rounding to cents and the shape of the
  generated tables, none about the last bit of a float.
\<close>

datatype error = KeyError | IndexError | ValueError | ZeroDivisionError

text \<open>\<^verbatim>\<open>int(x)\<close> of a float truncates towards zero.\<close>

definition py_int :: "real \<Rightarrow> int" where
  "py_int x = (if 0 \<le> x then \<lfloor>x\<rfloor> else \<lceil>x\<rceil>)"

text \<open>Rounding to the nearest integer, a tie going to the even neighbour.\<close>

definition round_half_even :: "real \<Rightarrow> int" where
  "round_half_even y =
     (let f = \<lfloor>y\<rfloor>; d = y - of_int f
      in if d < 1 / 2 then f
         else if 1 / 2 < d then f + 1
         else if even f then f else f + 1)"

text \<open>\<^verbatim>\<open>round(x, 2)\<close>.\<close>

definition py_round2 :: "real \<Rightarrow> real" where
  "py_round2 x = of_int (round_half_even (x * 100)) / 100"

text \<open>\<^verbatim>\<open>def clamp(x, lo, hi): return max(lo, min(hi, x))\<close>\<close>

definition clamp :: "real \<Rightarrow> real \<Rightarrow> real \<Rightarrow> real" where
  "clamp x lo hi = max lo (min hi x)"

text \<open>A dict literal is an association list in insertion order; \<^verbatim>\<open>d[k]\<close> raises
  KeyError on a missing key.\<close>

definition subscript :: "('k \<times> 'v) list \<Rightarrow> 'k \<Rightarrow> error + 'v" where
  "subscript d k = (case map_of d k of None \<Rightarrow> Inl KeyError | Some v \<Rightarrow> Inr v)"

text \<open>\<^verbatim>\<open>a / b\<close> on Python numbers raises ZeroDivisionError for \<^verbatim>\<open>b == 0\<close>.\<close>

definition py_truediv :: "real \<Rightarrow> real \<Rightarrow> error + real" where
  "py_truediv a b = (if b = 0 then Inl ZeroDivisionError else Inr (a / b))"

section \<open>Calendar dates\<close>

text \<open>
  A date is its proleptic Gregorian ordinal (\<^verbatim>\<open>date.toordinal()\<close>, day 1 is
  0001-01-01, a Monday). \<^verbatim>\<open>weekday()\<close> counts Monday as 0; \<^verbatim>\<open>tm_yday\<close> is the
  day of the year from 1, computed as the standard library splits an ordinal into
  400-, 100-, 4- and 1-year cycles.
\<close>

type_synonym date = int

definition weekday :: "date \<Rightarrow> int" where
  "weekday d = (d + 6) mod 7"

definition tm_yday :: "date \<Rightarrow> int" where
  "tm_yday d =
     (let n = d - 1;
          n100 = (n mod 146097) div 36524;
          r100 = (n mod 146097) mod 36524;
          n1 = (r100 mod 1461) div 365;
          r1 = (r100 mod 1461) mod 365
      in if n1 = 4 \<or> n100 = 4 then 366 else r1 + 1)"


text \<open>
  \<^verbatim>\<open>pd.date_range(start=start_date, periods=days).tolist()\<close>: the consecutive days
  from the start. What pandas does with a negative number of periods is the library's
  business and differs between its versions, so it is a parameter \<open>neg\<close> of the model.
\<close>

definition date_range :: "(error + date list) \<Rightarrow> date \<Rightarrow> int \<Rightarrow> error + date list" where
  "date_range neg start periods =
     (if periods < 0 then neg else Inr (map (\<lambda>i. start + int i) [0..<nat periods]))"

section \<open>Sequencing of fallible steps\<close>

definition bind_result :: "error + 'a \<Rightarrow> ('a \<Rightarrow> error + 'b) \<Rightarrow> error + 'b" where
  "bind_result m f = (case m of Inl e \<Rightarrow> Inl e | Inr x \<Rightarrow> f x)"

section \<open>The two random sources\<close>

text \<open>
  app.py draws from two process-wide generators: the module \<^verbatim>\<open>random\<close> and
  \<^verbatim>\<open>np.random\<close>. Each is a stream of raw variates that the draws consume in program
  order. A draw reads the head of its stream as the library documents the variate: a
  double in the half-open unit interval is the fractional part, a standard exponential
  variate the absolute value, a standard normal variate the number itself. Every value
  the library can deliver is delivered by some stream, and no other.
\<close>

record rng =
  py :: "real stream"
  np :: "real stream"

text \<open>\<^verbatim>\<open>random.random()\<close>\<close>

definition py_random :: "rng \<Rightarrow> real \<times> rng" where
  "py_random g = (frac (shd (py g)), g\<lparr>py := stl (py g)\<rparr>)"

text \<open>\<^verbatim>\<open>random.randint(a, b)\<close>: uniform on the integers from a to b, both included;
  ValueError on an empty range.\<close>

definition randint :: "int \<Rightarrow> int \<Rightarrow> rng \<Rightarrow> error + (int \<times> rng)" where
  "randint a b g =
     (if b < a then Inl ValueError
      else case py_random g of (u, g') \<Rightarrow> Inr (a + \<lfloor>u * of_int (b - a + 1)\<rfloor>, g'))"

text \<open>\<^verbatim>\<open>random.choice(seq)\<close>: IndexError on an empty sequence.\<close>

definition choice :: "'a list \<Rightarrow> rng \<Rightarrow> error + ('a \<times> rng)" where
  "choice seq g =
     (if seq = [] then Inl IndexError
      else case py_random g of (u, g') \<Rightarrow> Inr (seq ! nat \<lfloor>u * real (length seq)\<rfloor>, g'))"

text \<open>\<^verbatim>\<open>random.choices(population, k=k)\<close> without weights evaluates
  \<^verbatim>\<open>population[floor(random() * n)]\<close> k times, which is an IndexError for an empty
  population as soon as \<^verbatim>\<open>k > 0\<close>.\<close>

fun choices_k :: "'a list \<Rightarrow> nat \<Rightarrow> rng \<Rightarrow> error + ('a list \<times> rng)" where
  "choices_k population 0 g = Inr ([], g)"
| "choices_k population (Suc k) g =
     (case py_random g of (u, g') \<Rightarrow>
        if population = [] then Inl IndexError
        else bind_result (choices_k population k g')
               (\<lambda>(xs, g''). Inr (population ! nat \<lfloor>u * real (length population)\<rfloor> # xs, g'')))"

text \<open>\<^verbatim>\<open>itertools.accumulate\<close>: the running sums.\<close>

fun accumulate_from :: "real \<Rightarrow> real list \<Rightarrow> real list" where
  "accumulate_from t [] = []"
| "accumulate_from t (w # ws) = (t + w) # accumulate_from (t + w) ws"

definition accumulate :: "real list \<Rightarrow> real list" where
  "accumulate ws = accumulate_from 0 ws"

text \<open>\<^verbatim>\<open>bisect(a, x, 0, hi)\<close> on a non-decreasing list: the number of entries among the
  first \<open>hi\<close> that are at most \<open>x\<close>.\<close>

definition bisect :: "real list \<Rightarrow> real \<Rightarrow> nat \<Rightarrow> nat" where
  "bisect a x hi = length (takeWhile (\<lambda>c. c \<le> x) (take hi a))"

text \<open>\<^verbatim>\<open>random.choices(population, weights=weights)[0]\<close>: one weighted draw, with the
  library's checks of the weights.\<close>

definition choices_weighted :: "'a list \<Rightarrow> real list \<Rightarrow> rng \<Rightarrow> error + ('a \<times> rng)" where
  "choices_weighted population weights g =
     (let cum_weights = accumulate weights; n = length population
      in if length cum_weights \<noteq> n then Inl ValueError
         else if cum_weights = [] then Inl IndexError
         else if last cum_weights \<le> 0 then Inl ValueError
         else case py_random g of (u, g') \<Rightarrow>
                Inr (population ! bisect cum_weights (u * last cum_weights) (n - 1), g'))"

text \<open>\<^verbatim>\<open>np.random.normal(loc, scale)\<close>\<close>

definition np_normal :: "real \<Rightarrow> real \<Rightarrow> rng \<Rightarrow> real \<times> rng" where
  "np_normal loc scale g = (loc + scale * shd (np g), g\<lparr>np := stl (np g)\<rparr>)"

text \<open>\<^verbatim>\<open>np.random.exponential(scale)\<close>\<close>

definition np_exponential :: "real \<Rightarrow> rng \<Rightarrow> real \<times> rng" where
  "np_exponential scale g = (scale * \<bar>shd (np g)\<bar>, g\<lparr>np := stl (np g)\<rparr>)"

text \<open>\<^verbatim>\<open>np.random.uniform(low, high)\<close>\<close>

definition np_uniform :: "real \<Rightarrow> real \<Rightarrow> rng \<Rightarrow> real \<times> rng" where
  "np_uniform low high g = (low + (high - low) * frac (shd (np g)), g\<lparr>np := stl (np g)\<rparr>)"

section \<open>Records of the four tables\<close>

text \<open>The dictionaries appended to \<^verbatim>\<open>sales_records\<close>, \<^verbatim>\<open>marketing_records\<close>,
  \<^verbatim>\<open>social_records\<close> and \<^verbatim>\<open>reviews_records\<close>. A key that several tables share
  carries the table's prefix outside the Sales table.\<close>

record sales_record =
  Brand :: string
  Date :: date
  Category :: string
  Product :: string
  Channel :: string
  Offer :: string
  Campaign :: string
  Qty :: int
  UnitPrice :: real
  Revenue :: real

record marketing_record =
  mkt_Brand :: string
  mkt_Date :: date
  mkt_Channel :: string
  mkt_Campaign :: string
  Traffic :: int
  CTR :: real
  CPC :: "real option"

record social_record =
  soc_Brand :: string
  soc_Date :: date
  Platform :: string
  EngagementRate :: real
  Followers :: int

record review_record =
  rev_Brand :: string
  rev_Date :: date
  Sentiment :: string
  Rating :: int

section \<open>The fixed catalogs of generate_mock_data\<close>

definition categories :: "(string \<times> string list) list" where
  "categories =
     [(''Skincare'', [''Hydrating Serum'', ''SPF50 Sunscreen'', ''Vitamin C Cream'', ''Gentle Cleanser'']),
      (''Makeup'', [''Matte Lipstick'', ''Glow Foundation'', ''Brow Kit'', ''Volumizing Mascara'']),
      (''Haircare'', [''Argan Shampoo'', ''Keratin Conditioner'', ''Repair Mask'', ''Curl Cream'']),
      (''Fragrance'', [''Citrus Mist'', ''Noir Eau de Parfum'', ''Floral Bloom'']),
      (''Body'', [''Shea Body Butter'', ''Exfoliating Scrub'', ''Aloe Body Gel''])]"

definition channels :: "string list" where
  "channels = [''Online'', ''In-store'', ''Wholesale'']"

definition marketing_channels :: "string list" where
  "marketing_channels = [''Organic'', ''Paid'', ''Social'', ''Email'']"

definition social_platforms :: "string list" where
  "social_platforms = [''Instagram'', ''Facebook'', ''TikTok'', ''YouTube'']"

definition offers :: "string list" where
  "offers = [''None'', ''10% Off'', ''Buy 1 Get 1'', ''Free Gift'']"

definition campaigns :: "string list" where
  "campaigns = [''Summer Glow'', ''Holiday Sparkle'', ''Winter Warmth'', ''Spring Fresh'', ''Loyalty Boost'']"

definition cat_weights :: "(string \<times> real list) list" where
  "cat_weights =
     [(''Radiance'', [0.4, 0.3, 0.15, 0.1, 0.05]),
      (''GlowUp'', [0.3, 0.4, 0.1, 0.1, 0.1]),
      (''PureBeauty'', [0.25, 0.25, 0.3, 0.1, 0.1])]"

definition base_price :: "(string \<times> real) list" where
  "base_price =
     [(''Skincare'', 45), (''Makeup'', 35), (''Haircare'', 30), (''Fragrance'', 75), (''Body'', 25)]"

definition base_traffic :: "(string \<times> real) list" where
  "base_traffic = [(''Organic'', 1200), (''Paid'', 800), (''Social'', 600), (''Email'', 400)]"

definition sentiments :: "string list" where
  "sentiments = [''Positive'', ''Neutral'', ''Negative'']"

definition sentiment_weights :: "real list" where
  "sentiment_weights = [0.7, 0.2, 0.1]"

section \<open>Seasonality\<close>

text \<open>\<^verbatim>\<open>1 + 0.25 * np.sin(2 * np.pi * (day_of_year / 365) - np.pi / 2)\<close>\<close>

definition generate_seasonal_multiplier :: "date \<Rightarrow> real" where
  "generate_seasonal_multiplier d =
     1 + 0.25 * sin (2 * pi * (of_int (tm_yday d) / 365) - pi / 2)"

text \<open>\<^verbatim>\<open>1.1 if date.weekday() in [4,5] else 0.9\<close>\<close>

definition weekday_factor :: "date \<Rightarrow> real" where
  "weekday_factor d = (if weekday d \<in> {4, 5} then 1.1 else 0.9)"

section \<open>Sales\<close>

text \<open>The body of \<^verbatim>\<open>for _ in range(daily_orders)\<close>: one Sales record.\<close>

definition sales_order :: "string \<Rightarrow> date \<Rightarrow> string \<Rightarrow> rng \<Rightarrow> error + (sales_record \<times> rng)" where
  "sales_order brand d active_campaign g =
     bind_result (subscript cat_weights brand) (\<lambda>w.
     bind_result (choices_weighted (map fst categories) w g) (\<lambda>(cat, g1).
     bind_result (subscript categories cat) (\<lambda>products.
     bind_result (choice products g1) (\<lambda>(prod, g2).
     bind_result (choices_weighted channels [0.6, 0.3, 0.1] g2) (\<lambda>(channel, g3).
     bind_result (choices_weighted offers [0.7, 0.15, 0.1, 0.05] g3) (\<lambda>(offer, g4).
     bind_result (subscript base_price cat) (\<lambda>base.
       case np_normal base (base * 0.15) g4 of (x, g5) \<Rightarrow>
       case np_exponential 1.5 g5 of (e, g6) \<Rightarrow>
         let price = clamp (py_round2 x) (base * 0.6) (base * 1.5);
             qty = max 1 (py_int e);
             revenue = py_round2 (price * of_int qty)
         in Inr (\<lparr>Brand = brand, Date = d, Category = cat, Product = prod,
                   Channel = channel, Offer = offer, Campaign = active_campaign,
                   Qty = qty, UnitPrice = price, Revenue = revenue\<rparr>, g6))))))))"

text \<open>\<^verbatim>\<open>for _ in range(daily_orders)\<close>: the records appended, in order.\<close>

fun sales_loop :: "nat \<Rightarrow> string \<Rightarrow> date \<Rightarrow> string \<Rightarrow> rng \<Rightarrow> error + (sales_record list \<times> rng)" where
  "sales_loop 0 brand d active_campaign g = Inr ([], g)"
| "sales_loop (Suc n) brand d active_campaign g =
     bind_result (sales_order brand d active_campaign g) (\<lambda>(r, g1).
     bind_result (sales_loop n brand d active_campaign g1) (\<lambda>(rs, g2).
       Inr (r # rs, g2)))"

section \<open>Marketing\<close>

text \<open>The body of \<^verbatim>\<open>for mkt_channel in marketing_channels\<close>.\<close>

definition marketing_row ::
  "string \<Rightarrow> date \<Rightarrow> string \<Rightarrow> real \<Rightarrow> string \<Rightarrow> rng \<Rightarrow> error + (marketing_record \<times> rng)" where
  "marketing_row brand d active_campaign seasonal_mult mkt_channel g =
     bind_result (subscript base_traffic mkt_channel) (\<lambda>base.
       case np_normal (base * seasonal_mult) (base * 0.1) g of (x, g1) \<Rightarrow>
       case np_uniform 0.3 4.5 g1 of (c, g2) \<Rightarrow>
       case (if mkt_channel = ''Paid''
             then (case np_uniform 0.3 2.0 g2 of (p, g3) \<Rightarrow> (Some (py_round2 p), g3))
             else (None, g2)) of (cpc, g3) \<Rightarrow>
         Inr (\<lparr>mkt_Brand = brand, mkt_Date = d, mkt_Channel = mkt_channel,
                 mkt_Campaign = active_campaign,
                 Traffic = py_int (clamp x 100 5000), CTR = py_round2 c, CPC = cpc\<rparr>, g3))"

fun marketing_loop ::
  "string list \<Rightarrow> string \<Rightarrow> date \<Rightarrow> string \<Rightarrow> real \<Rightarrow> rng \<Rightarrow> error + (marketing_record list \<times> rng)" where
  "marketing_loop [] brand d active_campaign seasonal_mult g = Inr ([], g)"
| "marketing_loop (c # cs) brand d active_campaign seasonal_mult g =
     bind_result (marketing_row brand d active_campaign seasonal_mult c g) (\<lambda>(r, g1).
     bind_result (marketing_loop cs brand d active_campaign seasonal_mult g1) (\<lambda>(rs, g2).
       Inr (r # rs, g2)))"

section \<open>Social media\<close>

text \<open>\<^verbatim>\<open>followers = {p: random.randint(5000, 15000) for p in social_platforms}\<close>\<close>

fun init_followers ::
  "string list \<Rightarrow> (string \<rightharpoonup> int) \<Rightarrow> rng \<Rightarrow> error + ((string \<rightharpoonup> int) \<times> rng)" where
  "init_followers [] followers g = Inr (followers, g)"
| "init_followers (p # ps) followers g =
     bind_result (randint 5000 15000 g) (\<lambda>(n, g1).
       init_followers ps (followers(p \<mapsto> n)) g1)"

text \<open>\<^verbatim>\<open>for platform in social_platforms\<close>: the running count of the platform is
  multiplied by the day's growth factor, truncated and stored back; the record carries
  the new count.\<close>

fun social_loop ::
  "string list \<Rightarrow> string \<Rightarrow> date \<Rightarrow> (string \<rightharpoonup> int) \<Rightarrow> rng
     \<Rightarrow> error + (social_record list \<times> (string \<rightharpoonup> int) \<times> rng)" where
  "social_loop [] brand d followers g = Inr ([], followers, g)"
| "social_loop (p # ps) brand d followers g =
     bind_result (case followers p of None \<Rightarrow> Inl KeyError | Some f \<Rightarrow> Inr f) (\<lambda>f.
       case np_uniform 1.0005 1.003 g of (growth, g1) \<Rightarrow>
       case np_uniform 0.5 8.5 g1 of (e, g2) \<Rightarrow>
         let f' = py_int (of_int f * growth)
         in bind_result (social_loop ps brand d (followers(p \<mapsto> f')) g2)
              (\<lambda>(rs, followers', g3).
                 Inr (\<lparr>soc_Brand = brand, soc_Date = d, Platform = p,
                         EngagementRate = py_round2 e, Followers = f'\<rparr> # rs,
                      followers', g3)))"

section \<open>One brand on one day\<close>

text \<open>The body of \<^verbatim>\<open>for date in dates\<close>: the order count, the day's campaign, then
  the Sales, Marketing and Social records of the day.\<close>

definition day_step ::
  "string \<Rightarrow> date \<Rightarrow> (string \<rightharpoonup> int) \<Rightarrow> rng
     \<Rightarrow> error + (sales_record list \<times> marketing_record list \<times> social_record list
                 \<times> (string \<rightharpoonup> int) \<times> rng)" where
  "day_step brand d followers g =
     (let seasonal_mult = generate_seasonal_multiplier d
      in case np_normal (80 * seasonal_mult * weekday_factor d) 15 g of (x, g1) \<Rightarrow>
         let daily_orders = py_int (clamp x 40 150)
         in bind_result (choice campaigns g1) (\<lambda>(active_campaign, g2).
            bind_result (sales_loop (nat daily_orders) brand d active_campaign g2) (\<lambda>(s, g3).
            bind_result (marketing_loop marketing_channels brand d active_campaign seasonal_mult g3)
              (\<lambda>(m, g4).
            bind_result (social_loop social_platforms brand d followers g4)
              (\<lambda>(so, followers', g5).
                 Inr (s, m, so, followers', g5))))))"

fun date_loop ::
  "date list \<Rightarrow> string \<Rightarrow> (string \<rightharpoonup> int) \<Rightarrow> rng
     \<Rightarrow> error + (sales_record list \<times> marketing_record list \<times> social_record list \<times> rng)" where
  "date_loop [] brand followers g = Inr ([], [], [], g)"
| "date_loop (d # ds) brand followers g =
     bind_result (day_step brand d followers g) (\<lambda>(s, m, so, followers', g1).
     bind_result (date_loop ds brand followers' g1) (\<lambda>(ss, ms, sos, g2).
       Inr (s @ ss, m @ ms, so @ sos, g2)))"

section \<open>Reviews\<close>

text \<open>The body of \<^verbatim>\<open>for review_date in review_dates\<close>. The dictionary
  \<^verbatim>\<open>rating_map\<close> is built whole, so both \<^verbatim>\<open>randint\<close> calls are made whatever the
  sentiment.\<close>

definition review_row :: "string \<Rightarrow> date \<Rightarrow> rng \<Rightarrow> error + (review_record \<times> rng)" where
  "review_row brand review_date g =
     bind_result (choices_weighted sentiments sentiment_weights g) (\<lambda>(sentiment, g1).
     bind_result (randint 4 5 g1) (\<lambda>(pos, g2).
     bind_result (randint 1 2 g2) (\<lambda>(neg, g3).
     bind_result (subscript [(''Positive'', pos), (''Neutral'', 3), (''Negative'', neg)] sentiment)
       (\<lambda>rating.
          Inr (\<lparr>rev_Brand = brand, rev_Date = review_date, Sentiment = sentiment,
                  Rating = rating\<rparr>, g3)))))"

fun reviews_loop :: "date list \<Rightarrow> string \<Rightarrow> rng \<Rightarrow> error + (review_record list \<times> rng)" where
  "reviews_loop [] brand g = Inr ([], g)"
| "reviews_loop (review_date # ds) brand g =
     bind_result (review_row brand review_date g) (\<lambda>(r, g1).
     bind_result (reviews_loop ds brand g1) (\<lambda>(rs, g2).
       Inr (r # rs, g2)))"

section \<open>One brand, all brands\<close>

text \<open>The body of \<^verbatim>\<open>for brand in brands\<close>: the follower counts are drawn, the days
  are run in order, then 120 review dates are drawn from \<^verbatim>\<open>dates\<close>.\<close>

definition brand_step ::
  "date list \<Rightarrow> string \<Rightarrow> rng
     \<Rightarrow> error + (sales_record list \<times> marketing_record list \<times> social_record list
                 \<times> review_record list \<times> rng)" where
  "brand_step dates brand g =
     bind_result (init_followers social_platforms Map.empty g) (\<lambda>(followers, g1).
     bind_result (date_loop dates brand followers g1) (\<lambda>(s, m, so, g2).
     bind_result (choices_k dates 120 g2) (\<lambda>(review_dates, g3).
     bind_result (reviews_loop review_dates brand g3) (\<lambda>(rv, g4).
       Inr (s, m, so, rv, g4)))))"

fun brand_loop ::
  "string list \<Rightarrow> date list \<Rightarrow> rng
     \<Rightarrow> error + (sales_record list \<times> marketing_record list \<times> social_record list
                 \<times> review_record list \<times> rng)" where
  "brand_loop [] dates g = Inr ([], [], [], [], g)"
| "brand_loop (brand # bs) dates g =
     bind_result (brand_step dates brand g) (\<lambda>(s, m, so, rv, g1).
     bind_result (brand_loop bs dates g1) (\<lambda>(ss, ms, sos, rvs, g2).
       Inr (s @ ss, m @ ms, so @ sos, rv @ rvs, g2)))"

section \<open>Assembly\<close>

text \<open>
  \<^verbatim>\<open>pd.DataFrame(records)\<close> takes its columns from the keys of the dictionaries, so a
  frame built from no record has no column, and \<^verbatim>\<open>df["Date"]\<close> on it is a KeyError.
  \<^verbatim>\<open>pd.to_datetime\<close> leaves the timestamps of \<^verbatim>\<open>date_range\<close> as they are.
\<close>

record 'r data_frame =
  columns :: "string list"
  rows :: "'r list"

definition DataFrame :: "string list \<Rightarrow> 'r list \<Rightarrow> 'r data_frame" where
  "DataFrame keys records = \<lparr>columns = (if records = [] then [] else keys), rows = records\<rparr>"

definition to_datetime_Date :: "'r data_frame \<Rightarrow> error + 'r data_frame" where
  "to_datetime_Date df = (if ''Date'' \<in> set (columns df) then Inr df else Inl KeyError)"

record mock_data =
  sales_df :: "sales_record data_frame"
  marketing_df :: "marketing_record data_frame"
  social_df :: "social_record data_frame"
  reviews_df :: "review_record data_frame"
  campaign_catalog :: "string list"

text \<open>\<^verbatim>\<open>if brands is None: brands = ["Radiance", "GlowUp", "PureBeauty"]\<close>\<close>

definition brands_or_default :: "string list option \<Rightarrow> string list" where
  "brands_or_default brands =
     (case brands of None \<Rightarrow> [''Radiance'', ''GlowUp'', ''PureBeauty''] | Some bs \<Rightarrow> bs)"

text \<open>
  \<^verbatim>\<open>generate_mock_data(start_date, days=90, brands=None)\<close>. The result is the tuple the
  function returns, with the state the two generators are left in. The decorator
  \<^verbatim>\<open>st.cache_data\<close> only replays the result of an earlier call with the same arguments.
\<close>

definition generate_mock_data ::
  "(error + date list) \<Rightarrow> rng \<Rightarrow> date \<Rightarrow> int \<Rightarrow> string list option \<Rightarrow> error + (mock_data \<times> rng)" where
  "generate_mock_data neg g start_date days brands =
     (let brands = brands_or_default brands
      in bind_result (date_range neg start_date days) (\<lambda>dates.
         bind_result (brand_loop brands dates g) (\<lambda>(s, m, so, rv, g').
         bind_result (to_datetime_Date (DataFrame
             [''Brand'', ''Date'', ''Category'', ''Product'', ''Channel'', ''Offer'', ''Campaign'',
              ''Qty'', ''UnitPrice'', ''Revenue''] s)) (\<lambda>sales.
         bind_result (to_datetime_Date (DataFrame
             [''Brand'', ''Date'', ''Channel'', ''Campaign'', ''Traffic'', ''CTR'', ''CPC''] m))
           (\<lambda>marketing.
         bind_result (to_datetime_Date (DataFrame
             [''Brand'', ''Date'', ''Platform'', ''EngagementRate'', ''Followers''] so))
           (\<lambda>social.
         bind_result (to_datetime_Date (DataFrame
             [''Brand'', ''Date'', ''Sentiment'', ''Rating''] rv)) (\<lambda>reviews.
           Inr (\<lparr>sales_df = sales, marketing_df = marketing, social_df = social,
                   reviews_df = reviews, campaign_catalog = campaigns\<rparr>, g'))))))))"

section \<open>The dashboard's executive summary\<close>

text \<open>The filter of \<^verbatim>\<open>sales_df\<close> by the selected brands, the selected campaigns and the
  date range of the sidebar.\<close>

definition filter_sales ::
  "string list \<Rightarrow> string list \<Rightarrow> date \<Rightarrow> date \<Rightarrow> sales_record list \<Rightarrow> sales_record list" where
  "filter_sales selected_brands selected_campaigns start_filter end_filter rs =
     filter (\<lambda>r. Brand r \<in> set selected_brands \<and> Campaign r \<in> set selected_campaigns
                  \<and> start_filter \<le> Date r \<and> Date r \<le> end_filter) rs"

text \<open>\<^verbatim>\<open>avg_order_value = total_revenue / total_orders if total_orders else 0\<close>, with
  the two sums over the filtered Sales rows.\<close>

definition avg_order_value :: "sales_record list \<Rightarrow> error + real" where
  "avg_order_value rs =
     (let total_revenue = sum_list (map Revenue rs);
          total_orders = sum_list (map Qty rs)
      in if total_orders \<noteq> 0 then py_truediv total_revenue (of_int total_orders) else Inr 0)"

section \<open>A sample run\<close>

text \<open>
  A run of the generator that can be followed by hand: one brand, the two days
  2024-01-01 and 2024-01-02, a \<^verbatim>\<open>random\<close> source whose every double is 0 and a
  \<^verbatim>\<open>np.random\<close> source whose every raw variate is -20. Each day then has the minimum
  of 40 orders, all for the first product at the lowest price, and the follower counts
  grow from 5000 to 5002 and 5004.
\<close>

definition sample_rng :: rng where
  "sample_rng = \<lparr>py = sconst 0, np = sconst (- 20)\<rparr>"

definition sample_sale :: "date \<Rightarrow> sales_record" where
  "sample_sale d =
     \<lparr>Brand = ''Radiance'', Date = d, Category = ''Skincare'', Product = ''Hydrating Serum'',
      Channel = ''Online'', Offer = ''None'', Campaign = ''Summer Glow'',
      Qty = 30, UnitPrice = 27, Revenue = 810\<rparr>"

definition sample_marketing :: "date \<Rightarrow> marketing_record list" where
  "sample_marketing d =
     map (\<lambda>c. \<lparr>mkt_Brand = ''Radiance'', mkt_Date = d, mkt_Channel = c,
                mkt_Campaign = ''Summer Glow'', Traffic = 100, CTR = 0.3,
                CPC = (if c = ''Paid'' then Some 0.3 else None)\<rparr>) marketing_channels"

definition sample_social :: "date \<Rightarrow> int \<Rightarrow> social_record list" where
  "sample_social d f =
     map (\<lambda>p. \<lparr>soc_Brand = ''Radiance'', soc_Date = d, Platform = p,
                EngagementRate = 0.5, Followers = f\<rparr>) social_platforms"

definition sample_review :: "date \<Rightarrow> review_record" where
  "sample_review d =
     \<lparr>rev_Brand = ''Radiance'', rev_Date = d, Sentiment = ''Positive'', Rating = 4\<rparr>"

definition sample_followers :: "int \<Rightarrow> (string \<rightharpoonup> int)" where
  "sample_followers f = (\<lambda>q. if q \<in> set social_platforms then Some f else None)"

definition sample_output :: mock_data where
  "sample_output =
     \<lparr>sales_df = \<lparr>columns = [''Brand'', ''Date'', ''Category'', ''Product'', ''Channel'', ''Offer'',
                              ''Campaign'', ''Qty'', ''UnitPrice'', ''Revenue''],
                   rows = replicate 40 (sample_sale 738886) @ replicate 40 (sample_sale 738887)\<rparr>,
      marketing_df = \<lparr>columns = [''Brand'', ''Date'', ''Channel'', ''Campaign'', ''Traffic'', ''CTR'',
                                  ''CPC''],
                       rows = sample_marketing 738886 @ sample_marketing 738887\<rparr>,
      social_df = \<lparr>columns = [''Brand'', ''Date'', ''Platform'', ''EngagementRate'', ''Followers''],
                    rows = sample_social 738886 5002 @ sample_social 738887 5004\<rparr>,
      reviews_df = \<lparr>columns = [''Brand'', ''Date'', ''Sentiment'', ''Rating''],
                     rows = replicate 120 (sample_review 738886)\<rparr>,
      campaign_catalog = campaigns\<rparr>"

section \<open>Basic facts\<close>

lemma bind_result_Inl [simp]: "bind_result (Inl e) f = Inl e"
  by (simp add: bind_result_def)

lemma bind_result_Inr [simp]: "bind_result (Inr x) f = f x"
  by (simp add: bind_result_def)

lemma bind_result_eq_Inr:
  "bind_result m f = Inr y \<longleftrightarrow> (\<exists>x. m = Inr x \<and> f x = Inr y)"
  by (cases m) simp_all

section \<open>The average order value\<close>

text \<open>
  C9. The average order value of the executive summary is guarded against zero orders:
  when the quantities of the filtered Sales rows sum to zero the result is the number 0,
  and on no rows at all does the computation end in a division by zero.
\<close>

theorem avg_order_value_guarded:
  "(sum_list (map Qty rs) = 0 \<longrightarrow> avg_order_value rs = Inr 0)
   \<and> avg_order_value rs \<noteq> Inl ZeroDivisionError"
  by (simp add: avg_order_value_def py_truediv_def Let_def)

theorem avg_order_value_guarded_witness:
  "avg_order_value
     (filter_sales [] campaigns 0 90
        [\<lparr>Brand = ''Radiance'', Date = 3, Category = ''Body'', Product = ''Aloe Body Gel'',
          Channel = ''Online'', Offer = ''None'', Campaign = ''Summer Glow'',
          Qty = 2, UnitPrice = 25, Revenue = 50\<rparr>]) = Inr 0"
  using avg_order_value_guarded
    [of "filter_sales [] campaigns 0 90
        [\<lparr>Brand = ''Radiance'', Date = 3, Category = ''Body'', Product = ''Aloe Body Gel'',
          Channel = ''Online'', Offer = ''None'', Campaign = ''Summer Glow'',
          Qty = 2, UnitPrice = 25, Revenue = 50\<rparr>]"]
  by (simp add: filter_sales_def)

lemma py_random_unit: "py_random g = (u, g') \<Longrightarrow> 0 \<le> u \<and> u < 1"
  by (auto simp: py_random_def frac_lt_1)

lemma clamp_bounds: "lo \<le> hi \<Longrightarrow> lo \<le> clamp x lo hi \<and> clamp x lo hi \<le> hi"
  by (simp add: clamp_def)

lemma py_int_bounds:
  "of_int a \<le> x \<Longrightarrow> x \<le> of_int b \<Longrightarrow> a \<le> py_int x \<and> py_int x \<le> b"
  unfolding py_int_def by (auto simp: le_floor_iff floor_le_iff ceiling_le_iff le_ceiling_iff)

lemma round_half_even_bounds: "\<lfloor>y\<rfloor> \<le> round_half_even y \<and> round_half_even y \<le> \<lceil>y\<rceil>"
  unfolding round_half_even_def Let_def by (auto simp: ceiling_altdef) 

lemma py_round2_bounds:
  assumes "of_int a / 100 \<le> x" "x \<le> of_int b / 100"
  shows "of_int a / 100 \<le> py_round2 x \<and> py_round2 x \<le> of_int b / 100"
proof -
  have "a \<le> \<lfloor>x * 100\<rfloor>" using assms(1) by (simp add: le_floor_iff field_simps)
  moreover have "\<lceil>x * 100\<rceil> \<le> b" using assms(2) by (simp add: ceiling_le_iff field_simps)
  ultimately have "a \<le> round_half_even (x * 100)" "round_half_even (x * 100) \<le> b"
    using round_half_even_bounds[of "x * 100"] by linarith+
  then show ?thesis by (simp add: py_round2_def divide_right_mono)
qed

lemma np_uniform_bounds:
  assumes "low \<le> high" "np_uniform low high g = (x, g')"
  shows "low \<le> x \<and> x \<le> high"
proof -
  define u where "u = frac (shd (np g))"
  have u: "0 \<le> u" "u \<le> 1" using frac_lt_1[of "shd (np g)"] by (simp_all add: u_def less_imp_le)
  have x: "x = low + (high - low) * u" using assms(2) by (simp add: np_uniform_def u_def)
  have "0 \<le> (high - low) * u" using assms(1) u by simp
  moreover have "(high - low) * u \<le> (high - low) * 1"
    using assms(1) u by (intro mult_left_mono) simp_all
  ultimately show ?thesis using x by simp
qed

lemma unit_index: "0 \<le> u \<Longrightarrow> u < 1 \<Longrightarrow> 0 < n \<Longrightarrow> nat \<lfloor>u * real n\<rfloor> < n"
proof -
  assume u: "0 \<le> u" "u < 1" and n: "0 < n"
  have "u * real n < real n" using u n by simp
  then have "\<lfloor>u * real n\<rfloor> < int n" by (simp add: floor_less_iff)
  then show ?thesis using n by linarith
qed

lemma choice_in_set: "choice seq g = Inr (x, g') \<Longrightarrow> x \<in> set seq"
  by (auto simp: choice_def split: if_splits prod.splits dest!: py_random_unit intro!: nth_mem unit_index)

lemma choice_Inr: "seq \<noteq> [] \<Longrightarrow> \<exists>x g'. choice seq g = Inr (x, g')"
  by (auto simp: choice_def split: prod.splits)

lemma bisect_le: "bisect a x hi \<le> hi"
  unfolding bisect_def
  by (rule order_trans[OF length_takeWhile_le]) simp

lemma length_accumulate_from: "length (accumulate_from t ws) = length ws"
  by (induction ws arbitrary: t) auto

lemma length_accumulate [simp]: "length (accumulate ws) = length ws"
  by (simp add: accumulate_def length_accumulate_from)

lemma choices_weighted_in_set:
  "choices_weighted population ws g = Inr (x, g') \<Longrightarrow> x \<in> set population"
proof -
  assume a: "choices_weighted population ws g = Inr (x, g')"
  then have n: "population \<noteq> []"
    by (auto simp: choices_weighted_def Let_def accumulate_def split: if_splits)
  from a obtain i where "x = population ! i" "i \<le> length population - 1"
    by (auto simp: choices_weighted_def Let_def bisect_le split: if_splits prod.splits)
  moreover have "i < length population" using n \<open>i \<le> length population - 1\<close>
    by (cases population) simp_all
  ultimately show ?thesis by simp
qed

lemma choices_weighted_Inr:
  "length ws = length population \<Longrightarrow> ws \<noteq> [] \<Longrightarrow> 0 < last (accumulate ws)
     \<Longrightarrow> \<exists>x g'. choices_weighted population ws g = Inr (x, g')"
  by (auto simp: choices_weighted_def Let_def split: prod.splits)
     (metis length_accumulate length_0_conv)

lemma randint_bounds: "randint a b g = Inr (n, g') \<Longrightarrow> a \<le> n \<and> n \<le> b"
proof -
  assume r: "randint a b g = Inr (n, g')"
  then have ab: "a \<le> b" by (auto simp: randint_def split: if_splits)
  obtain u g1 where p: "py_random g = (u, g1)" by (cases "py_random g")
  then have u: "0 \<le> u" "u < 1" using py_random_unit by blast+
  have n: "n = a + \<lfloor>u * real_of_int (b - a + 1)\<rfloor>"
    using r p ab by (simp add: randint_def)
  have "0 \<le> u * real_of_int (b - a + 1)" using u ab by simp
  moreover have "u * real_of_int (b - a + 1) < real_of_int (b - a + 1)" using u ab by simp
  ultimately have "0 \<le> \<lfloor>u * real_of_int (b - a + 1)\<rfloor>"
    "\<lfloor>u * real_of_int (b - a + 1)\<rfloor> < b - a + 1"
    by (simp_all only: zero_le_floor floor_less_iff)
  with n show ?thesis by simp
qed

lemma randint_Inr: "a \<le> b \<Longrightarrow> \<exists>n g'. randint a b g = Inr (n, g')"
  by (auto simp: randint_def split: prod.splits)

lemma choices_k_facts:
  "choices_k population k g = Inr (xs, g') \<Longrightarrow> length xs = k \<and> set xs \<subseteq> set population"
proof (induction k arbitrary: g xs g')
  case 0
  then show ?case by simp
next
  case (Suc k)
  obtain u g1 where p: "py_random g = (u, g1)" by (cases "py_random g")
  then have u: "0 \<le> u" "u < 1" using py_random_unit by blast+
  from Suc.prems p have ne: "population \<noteq> []" by (auto split: if_splits)
  from Suc.prems p ne obtain ys where
    ys: "choices_k population k g1 = Inr (ys, g')"
    and xs: "xs = population ! nat \<lfloor>u * real (length population)\<rfloor> # ys"
    by (auto simp: bind_result_eq_Inr)
  have "population ! nat \<lfloor>u * real (length population)\<rfloor> \<in> set population"
    using u ne by (intro nth_mem unit_index) simp_all
  with Suc.IH[OF ys] xs show ?case by simp
qed

lemma choices_k_empty: "0 < k \<Longrightarrow> choices_k [] k g = Inl IndexError"
  by (cases k) (auto split: prod.splits)

lemma choices_k_Inr: "population \<noteq> [] \<Longrightarrow> \<exists>xs g'. choices_k population k g = Inr (xs, g')"
proof (induction k arbitrary: g)
  case 0
  then show ?case by simp
next
  case (Suc k)
  obtain u g1 where p: "py_random g = (u, g1)" by (cases "py_random g")
  from Suc.IH[OF Suc.prems, of g1] obtain xs g2 where "choices_k population k g1 = Inr (xs, g2)" by blast
  with p Suc.prems show ?case by simp
qed

section \<open>Facts about one Sales record\<close>

lemma base_price_pos: "subscript base_price c = Inr b \<Longrightarrow> 0 < b"
  by (auto simp: subscript_def base_price_def split: if_splits)

lemma sales_order_keys:
  assumes "sales_order brand d camp g = Inr (r, g')"
  shows "Brand r = brand \<and> Date r = d \<and> Campaign r = camp"
  using assms
  by (auto simp: sales_order_def bind_result_eq_Inr Let_def np_normal_def np_exponential_def
        split: prod.splits)

lemma sales_order_numbers:
  assumes "sales_order brand d camp g = Inr (r, g')"
  shows "1 \<le> Qty r \<and> Revenue r = py_round2 (UnitPrice r * of_int (Qty r))
         \<and> (\<exists>base. subscript base_price (Category r) = Inr base
                \<and> base * 0.6 \<le> UnitPrice r \<and> UnitPrice r \<le> base * 1.5)"
proof -
  from assms obtain base x e where
    b: "subscript base_price (Category r) = Inr base"
    and p: "UnitPrice r = clamp (py_round2 x) (base * 0.6) (base * 1.5)"
    and q: "Qty r = max 1 (py_int e)"
    and v: "Revenue r = py_round2 (UnitPrice r * of_int (Qty r))"
    by (auto simp: sales_order_def bind_result_eq_Inr Let_def np_normal_def np_exponential_def
        split: prod.splits)
  have "base * 0.6 \<le> base * 1.5" using base_price_pos[OF b] by simp
  from clamp_bounds[OF this, of "py_round2 x"] b p q v show ?thesis by auto
qed

lemma cat_weights_known:
  "subscript cat_weights brand = Inr w \<Longrightarrow> brand \<in> {''Radiance'', ''GlowUp'', ''PureBeauty''}"
  by (auto simp: subscript_def cat_weights_def split: if_splits)

lemma cat_weights_unknown:
  "brand \<notin> {''Radiance'', ''GlowUp'', ''PureBeauty''} \<Longrightarrow> subscript cat_weights brand = Inl KeyError"
  by (auto simp: subscript_def cat_weights_def)

lemma sales_order_unknown:
  "brand \<notin> {''Radiance'', ''GlowUp'', ''PureBeauty''} \<Longrightarrow> sales_order brand d camp g = Inl KeyError"
  by (simp add: sales_order_def cat_weights_unknown)

lemma category_draw:
  assumes "brand \<in> {''Radiance'', ''GlowUp'', ''PureBeauty''}"
  shows "\<exists>w cat g1. subscript cat_weights brand = Inr w
           \<and> choices_weighted (map fst categories) w g = Inr (cat, g1)"
proof -
  from assms obtain w where w: "subscript cat_weights brand = Inr w" "length w = 5"
    "0 < last (accumulate w)"
    by (auto simp: subscript_def cat_weights_def accumulate_def)
  then have "w \<noteq> []" by auto
  with w choices_weighted_Inr[of w "map fst categories" g] show ?thesis
    by (auto simp: categories_def)
qed

lemma category_lookups:
  assumes "cat \<in> set (map fst categories)"
  shows "\<exists>products base. subscript categories cat = Inr products \<and> products \<noteq> []
           \<and> subscript base_price cat = Inr base"
  using assms by (auto simp: categories_def subscript_def base_price_def)

lemma sales_order_known:
  assumes "brand \<in> {''Radiance'', ''GlowUp'', ''PureBeauty''}"
  shows "\<exists>r g'. sales_order brand d camp g = Inr (r, g')"
proof -
  from category_draw[OF assms] obtain w cat g1 where
    w: "subscript cat_weights brand = Inr w"
    and c: "choices_weighted (map fst categories) w g = Inr (cat, g1)" by blast
  from category_lookups[OF choices_weighted_in_set[OF c]] obtain products base where
    l: "subscript categories cat = Inr products" "products \<noteq> []"
       "subscript base_price cat = Inr base" by blast
  from choice_Inr[OF l(2)] obtain prod g2 where p: "choice products g1 = Inr (prod, g2)" by blast
  have "\<exists>x g'. choices_weighted channels [0.6, 0.3, 0.1] g2 = Inr (x, g')"
    by (rule choices_weighted_Inr) (simp_all add: channels_def accumulate_def)
  then obtain channel g3 where ch: "choices_weighted channels [0.6, 0.3, 0.1] g2 = Inr (channel, g3)"
    by blast
  have "\<exists>x g'. choices_weighted offers [0.7, 0.15, 0.1, 0.05] g3 = Inr (x, g')"
    by (rule choices_weighted_Inr) (simp_all add: offers_def accumulate_def)
  then obtain offer g4 where
    off: "choices_weighted offers [0.7, 0.15, 0.1, 0.05] g3 = Inr (offer, g4)" by blast
  show ?thesis
    using w c l p ch off
    by (simp add: sales_order_def Let_def np_normal_def np_exponential_def)
qed

section \<open>Facts about the order loop\<close>

lemma sales_loop_rows:
  "sales_loop n brand d camp g = Inr (rs, g') \<Longrightarrow>
     length rs = n \<and> (\<forall>r \<in> set rs. \<exists>g1 g2. sales_order brand d camp g1 = Inr (r, g2))"
proof (induction n arbitrary: g rs)
  case 0
  then show ?case by simp
next
  case (Suc n)
  from Suc.prems obtain r g1 rs' where
    r: "sales_order brand d camp g = Inr (r, g1)"
    and l: "sales_loop n brand d camp g1 = Inr (rs', g')"
    and rs: "rs = r # rs'"
    by (auto simp: bind_result_eq_Inr)
  from Suc.IH[OF l] r rs show ?case by auto
qed

lemma sales_loop_known:
  assumes "brand \<in> {''Radiance'', ''GlowUp'', ''PureBeauty''}"
  shows "\<exists>rs g'. sales_loop n brand d camp g = Inr (rs, g')"
proof (induction n arbitrary: g)
  case 0
  then show ?case by simp
next
  case (Suc n)
  from sales_order_known[OF assms] obtain r g1 where
    r: "sales_order brand d camp g = Inr (r, g1)" by blast
  from Suc.IH[of g1] obtain rs g2 where "sales_loop n brand d camp g1 = Inr (rs, g2)" by blast
  with r show ?case by simp
qed

lemma sales_loop_unknown:
  "brand \<notin> {''Radiance'', ''GlowUp'', ''PureBeauty''} \<Longrightarrow> 0 < n
     \<Longrightarrow> sales_loop n brand d camp g = Inl KeyError"
  by (cases n) (simp_all add: sales_order_unknown)

section \<open>Facts about the Marketing records\<close>

lemma base_traffic_known:
  "subscript base_traffic c = Inr b \<longleftrightarrow>
     (c, b) \<in> {(''Organic'', 1200), (''Paid'', 800), (''Social'', 600), (''Email'', 400)}"
  by (auto simp: subscript_def base_traffic_def)

lemma marketing_row_keys:
  assumes "marketing_row brand d camp sm c g = Inr (r, g')"
  shows "mkt_Brand r = brand \<and> mkt_Date r = d \<and> mkt_Campaign r = camp \<and> mkt_Channel r = c"
  using assms
  by (auto simp: marketing_row_def bind_result_eq_Inr np_normal_def np_uniform_def
      split: if_splits)

lemma marketing_row_shape:
  assumes "marketing_row brand d camp sm c g = Inr (r, g')"
  shows "\<exists>x y g1 g2. np_uniform 0.3 4.5 g1 = (y, g2)
           \<and> Traffic r = py_int (clamp x 100 5000) \<and> CTR r = py_round2 y
           \<and> CPC r = (if c = ''Paid'' then Some (py_round2 (fst (np_uniform 0.3 2.0 g2))) else None)"
proof -
  from assms obtain base where b: "subscript base_traffic c = Inr base"
    by (auto simp: marketing_row_def bind_result_eq_Inr)
  obtain x g1 where x: "np_normal (base * sm) (base * 0.1) g = (x, g1)"
    by (cases "np_normal (base * sm) (base * 0.1) g")
  obtain y g2 where y: "np_uniform 0.3 4.5 g1 = (y, g2)"
    by (cases "np_uniform 0.3 4.5 g1")
  obtain z g3 where z: "np_uniform 0.3 2.0 g2 = (z, g3)"
    by (cases "np_uniform 0.3 2.0 g2")
  from assms b x y z have
    "r = \<lparr>mkt_Brand = brand, mkt_Date = d, mkt_Channel = c, mkt_Campaign = camp,
          Traffic = py_int (clamp x 100 5000), CTR = py_round2 y,
          CPC = (if c = ''Paid'' then Some (py_round2 z) else None)\<rparr>"
    by (auto simp: marketing_row_def split: if_splits)
  then have "Traffic r = py_int (clamp x 100 5000)" "CTR r = py_round2 y"
    "CPC r = (if c = ''Paid'' then Some (py_round2 (fst (np_uniform 0.3 2.0 g2))) else None)"
    using z by simp_all
  with y show ?thesis by blast
qed

lemma marketing_row_numbers:
  assumes "marketing_row brand d camp sm c g = Inr (r, g')"
  shows "100 \<le> Traffic r \<and> Traffic r \<le> 5000 \<and> 0.3 \<le> CTR r \<and> CTR r \<le> 4.5
         \<and> (CPC r \<noteq> None \<longleftrightarrow> mkt_Channel r = ''Paid'')
         \<and> (\<forall>p. CPC r = Some p \<longrightarrow> 0.3 \<le> p \<and> p \<le> 2.0)"
proof -
  from marketing_row_shape[OF assms] obtain x y g1 g2 where
    y: "np_uniform 0.3 4.5 g1 = (y, g2)"
    and t: "Traffic r = py_int (clamp x 100 5000)"
    and c: "CTR r = py_round2 y"
    and cpc: "CPC r = (if c = ''Paid'' then Some (py_round2 (fst (np_uniform 0.3 2.0 g2))) else None)"
    by blast
  from assms have ch: "mkt_Channel r = c" using marketing_row_keys by blast
  have "real_of_int 100 \<le> clamp x 100 5000 \<and> clamp x 100 5000 \<le> real_of_int 5000"
    using clamp_bounds[of 100 5000 x] by simp
  then have T: "100 \<le> Traffic r \<and> Traffic r \<le> 5000"
    unfolding t using py_int_bounds[of 100 "clamp x 100 5000" 5000] by blast
  have "0.3 \<le> y \<and> y \<le> 4.5" using np_uniform_bounds[OF _ y] by simp
  then have "real_of_int 30 / 100 \<le> y" "y \<le> real_of_int 450 / 100" by simp_all
  from py_round2_bounds[OF this] have C: "0.3 \<le> CTR r \<and> CTR r \<le> 4.5"
    unfolding c by simp
  have P: "\<forall>p. CPC r = Some p \<longrightarrow> 0.3 \<le> p \<and> p \<le> 2.0"
  proof (intro allI impI)
    fix p assume "CPC r = Some p"
    with cpc have p: "p = py_round2 (fst (np_uniform 0.3 2.0 g2))"
      by (auto split: if_splits)
    obtain z g3 where z: "np_uniform 0.3 2.0 g2 = (z, g3)"
      by (cases "np_uniform 0.3 2.0 g2")
    have "0.3 \<le> z \<and> z \<le> 2.0" using np_uniform_bounds[OF _ z] by simp
    then have "real_of_int 30 / 100 \<le> z" "z \<le> real_of_int 200 / 100" by simp_all
    from py_round2_bounds[OF this] show "0.3 \<le> p \<and> p \<le> 2.0" unfolding p z by simp
  qed
  from cpc ch have "CPC r \<noteq> None \<longleftrightarrow> mkt_Channel r = ''Paid''" by simp
  with T C P show ?thesis by blast
qed

lemma marketing_row_Inr:
  "c \<in> set marketing_channels \<Longrightarrow> \<exists>r g'. marketing_row brand d camp sm c g = Inr (r, g')"
  by (auto simp: marketing_channels_def marketing_row_def subscript_def base_traffic_def
      np_normal_def np_uniform_def)

lemma marketing_loop_rows:
  "marketing_loop cs brand d camp sm g = Inr (rs, g') \<Longrightarrow>
     map mkt_Channel rs = cs
     \<and> (\<forall>r \<in> set rs. \<exists>c g1 g2. marketing_row brand d camp sm c g1 = Inr (r, g2))"
proof (induction cs arbitrary: g rs)
  case Nil
  then show ?case by simp
next
  case (Cons c cs)
  from Cons.prems obtain r g1 rs' where
    r: "marketing_row brand d camp sm c g = Inr (r, g1)"
    and l: "marketing_loop cs brand d camp sm g1 = Inr (rs', g')"
    and rs: "rs = r # rs'"
    by (auto simp: bind_result_eq_Inr)
  from Cons.IH[OF l] r rs marketing_row_keys[OF r] show ?case by auto
qed

lemma marketing_loop_Inr:
  "set cs \<subseteq> set marketing_channels \<Longrightarrow> \<exists>rs g'. marketing_loop cs brand d camp sm g = Inr (rs, g')"
proof (induction cs arbitrary: g)
  case Nil
  then show ?case by simp
next
  case (Cons c cs)
  then obtain r g1 where r: "marketing_row brand d camp sm c g = Inr (r, g1)"
    using marketing_row_Inr[of c brand d camp sm g] by auto
  from Cons obtain rs g2 where "marketing_loop cs brand d camp sm g1 = Inr (rs, g2)"
    by fastforce
  with r show ?case by simp
qed

section \<open>Facts about the follower counts\<close>

lemma growth_step: "0 \<le> f \<Longrightarrow> 1 \<le> u \<Longrightarrow> f \<le> py_int (of_int f * u)"
proof -
  assume f: "0 \<le> f" and u: "1 \<le> u"
  have "real_of_int f * 1 \<le> real_of_int f * u" using f u by (intro mult_left_mono) simp_all
  then have "real_of_int f \<le> real_of_int f * u" by simp
  moreover from this f have "0 \<le> real_of_int f * u" by linarith
  ultimately show ?thesis by (simp add: py_int_def le_floor_iff)
qed

lemma init_followers_facts:
  "init_followers ps fol0 g = Inr (fol, g') \<Longrightarrow>
     dom fol = dom fol0 \<union> set ps
     \<and> (\<forall>p f. fol p = Some f \<longrightarrow> fol0 p = Some f \<or> 5000 \<le> f \<and> f \<le> 15000)"
proof (induction ps arbitrary: fol0 g)
  case Nil
  then show ?case by simp
next
  case (Cons p ps)
  from Cons.prems obtain n g1 where
    n: "randint 5000 15000 g = Inr (n, g1)"
    and l: "init_followers ps (fol0(p \<mapsto> n)) g1 = Inr (fol, g')"
    by (auto simp: bind_result_eq_Inr)
  from Cons.IH[OF l] randint_bounds[OF n] show ?case
    by (auto split: if_splits)
qed

lemma init_followers_Inr: "\<exists>fol g'. init_followers ps fol0 g = Inr (fol, g')"
proof (induction ps arbitrary: fol0 g)
  case Nil
  then show ?case by simp
next
  case (Cons p ps)
  obtain n g1 where n: "randint 5000 15000 g = Inr (n, g1)"
    using randint_Inr[of 5000 15000 g] by auto
  from Cons[of "fol0(p \<mapsto> n)" g1] obtain fol g' where
    "init_followers ps (fol0(p \<mapsto> n)) g1 = Inr (fol, g')" by blast
  with n show ?case by simp
qed

lemma social_loop_Cons:
  assumes "social_loop (p # ps) brand d fol g = Inr (rs, fol', g')"
  shows "\<exists>f growth g1 g2 rs'.
           fol p = Some f \<and> np_uniform 1.0005 1.003 g = (growth, g1)
           \<and> social_loop ps brand d (fol(p \<mapsto> py_int (of_int f * growth))) g2 = Inr (rs', fol', g')
           \<and> rs = \<lparr>soc_Brand = brand, soc_Date = d, Platform = p,
                     EngagementRate = py_round2 (fst (np_uniform 0.5 8.5 g1)),
                     Followers = py_int (of_int f * growth)\<rparr> # rs'"
proof -
  from assms obtain f where f: "fol p = Some f"
    by (auto simp: bind_result_eq_Inr split: option.splits)
  obtain growth g1 where u: "np_uniform 1.0005 1.003 g = (growth, g1)"
    by (cases "np_uniform 1.0005 1.003 g")
  obtain e g2 where e: "np_uniform 0.5 8.5 g1 = (e, g2)"
    by (cases "np_uniform 0.5 8.5 g1")
  from assms f u e show ?thesis
    by (auto simp: bind_result_eq_Inr Let_def)
qed

lemma social_loop_rows:
  "social_loop ps brand d fol g = Inr (rs, fol', g') \<Longrightarrow>
     map Platform rs = ps \<and> (\<forall>r \<in> set rs. soc_Brand r = brand \<and> soc_Date r = d)
     \<and> dom fol' = dom fol"
proof (induction ps arbitrary: fol g rs)
  case Nil
  then show ?case by simp
next
  case (Cons p ps)
  from social_loop_Cons[OF Cons.prems] obtain f growth g1 g2 rs' where
    f: "fol p = Some f"
    and l: "social_loop ps brand d (fol(p \<mapsto> py_int (of_int f * growth))) g2 = Inr (rs', fol', g')"
    and rs: "rs = \<lparr>soc_Brand = brand, soc_Date = d, Platform = p,
                   EngagementRate = py_round2 (fst (np_uniform 0.5 8.5 g1)),
                   Followers = py_int (of_int f * growth)\<rparr> # rs'"
    by blast
  have d: "dom (fol(p \<mapsto> py_int (of_int f * growth))) = dom fol" using f by auto
  from Cons.IH[OF l] have ih: "map Platform rs' = ps"
    "\<forall>r \<in> set rs'. soc_Brand r = brand \<and> soc_Date r = d"
    "dom fol' = dom (fol(p \<mapsto> py_int (of_int f * growth)))" by blast+
  show ?case using ih(1,2) ih(3)[unfolded d] rs by simp
qed

lemma social_loop_chain:
  "social_loop ps brand d fol g = Inr (rs, fol', g') \<Longrightarrow> fol p = Some f \<Longrightarrow> 0 \<le> f \<Longrightarrow>
     \<exists>f'. fol' p = Some f'
        \<and> sorted (f # map Followers (filter (\<lambda>r. Platform r = p) rs) @ [f'])"
proof (induction ps arbitrary: fol g rs f)
  case Nil
  then show ?case by simp
next
  case (Cons q ps)
  from social_loop_Cons[OF Cons.prems(1)] obtain f0 growth g1 g2 rs' where
    f0: "fol q = Some f0"
    and u: "np_uniform 1.0005 1.003 g = (growth, g1)"
    and l: "social_loop ps brand d (fol(q \<mapsto> py_int (of_int f0 * growth))) g2 = Inr (rs', fol', g')"
    and rs: "rs = \<lparr>soc_Brand = brand, soc_Date = d, Platform = q,
                   EngagementRate = py_round2 (fst (np_uniform 0.5 8.5 g1)),
                   Followers = py_int (of_int f0 * growth)\<rparr> # rs'"
    by blast
  show ?case
  proof (cases "q = p")
    case True
    with f0 Cons.prems have ff: "f0 = f" by simp
    have "1 \<le> growth" using np_uniform_bounds[OF _ u] by simp
    from growth_step[OF Cons.prems(3) this] have step: "f \<le> py_int (of_int f * growth)" .
    with Cons.prems(3) have nn: "0 \<le> py_int (of_int f * growth)" by linarith
    from Cons.IH[OF l[unfolded ff], of "py_int (of_int f * growth)"] True nn
    obtain f' where "fol' p = Some f'"
      "sorted (py_int (of_int f * growth) # map Followers (filter (\<lambda>r. Platform r = p) rs') @ [f'])"
      by auto
    with step rs True ff show ?thesis by auto
  next
    case False
    with Cons.prems have "(fol(q \<mapsto> py_int (of_int f0 * growth))) p = Some f" by simp
    from Cons.IH[OF l this Cons.prems(3)] rs False show ?thesis by auto
  qed
qed

lemma social_loop_Inr:
  "set ps \<subseteq> dom fol \<Longrightarrow> \<exists>rs fol' g'. social_loop ps brand d fol g = Inr (rs, fol', g')"
proof (induction ps arbitrary: fol g)
  case Nil
  then show ?case by simp
next
  case (Cons p ps)
  then obtain f where f: "fol p = Some f" by auto
  obtain growth g1 where u: "np_uniform 1.0005 1.003 g = (growth, g1)"
    by (cases "np_uniform 1.0005 1.003 g")
  obtain e g2 where e: "np_uniform 0.5 8.5 g1 = (e, g2)"
    by (cases "np_uniform 0.5 8.5 g1")
  have "set ps \<subseteq> dom (fol(p \<mapsto> py_int (of_int f * growth)))" using Cons.prems by auto
  from Cons.IH[OF this, of g2] obtain rs fol' g' where
    "social_loop ps brand d (fol(p \<mapsto> py_int (of_int f * growth))) g2 = Inr (rs, fol', g')"
    by blast
  with f u e show ?case by (simp add: Let_def)
qed

section \<open>Facts about one brand on one day\<close>

lemma daily_orders_bounds: "40 \<le> py_int (clamp x 40 150) \<and> py_int (clamp x 40 150) \<le> 150"
proof -
  have "real_of_int 40 \<le> clamp x 40 150 \<and> clamp x 40 150 \<le> real_of_int 150"
    using clamp_bounds[of 40 150 x] by simp
  then show ?thesis using py_int_bounds[of 40 "clamp x 40 150" 150] by blast
qed

lemma day_step_shape:
  assumes "day_step brand d fol g = Inr (s, m, so, fol', g')"
  shows "\<exists>camp g1 g2 g3 g4.
           choice campaigns g1 = Inr (camp, g2)
           \<and> sales_loop (nat (py_int (clamp (80 * generate_seasonal_multiplier d * weekday_factor d
                   + 15 * shd (np g)) 40 150))) brand d camp g2 = Inr (s, g3)
           \<and> marketing_loop marketing_channels brand d camp (generate_seasonal_multiplier d) g3
               = Inr (m, g4)
           \<and> social_loop social_platforms brand d fol g4 = Inr (so, fol', g')"
  using assms
  by (auto simp: day_step_def Let_def np_normal_def bind_result_eq_Inr) blast

lemma day_step_facts:
  assumes "day_step brand d fol g = Inr (s, m, so, fol', g')"
  shows "\<exists>camp x. camp \<in> set campaigns
           \<and> int (length s) = py_int (clamp (80 * generate_seasonal_multiplier d * weekday_factor d
                   + 15 * x) 40 150)
           \<and> (\<forall>r \<in> set s. \<exists>g1 g2. sales_order brand d camp g1 = Inr (r, g2))
           \<and> map mkt_Channel m = marketing_channels
           \<and> (\<forall>r \<in> set m. \<exists>c g1 g2.
                  marketing_row brand d camp (generate_seasonal_multiplier d) c g1 = Inr (r, g2))
           \<and> map Platform so = social_platforms
           \<and> (\<forall>r \<in> set so. soc_Brand r = brand \<and> soc_Date r = d)
           \<and> dom fol' = dom fol"
proof -
  define x where "x = shd (np g)"
  define n where "n = py_int (clamp (80 * generate_seasonal_multiplier d * weekday_factor d
                   + 15 * x) 40 150)"
  from day_step_shape[OF assms] obtain camp g1 g2 g3 g4 where
    c: "choice campaigns g1 = Inr (camp, g2)"
    and sl: "sales_loop (nat n) brand d camp g2 = Inr (s, g3)"
    and ml: "marketing_loop marketing_channels brand d camp (generate_seasonal_multiplier d) g3
               = Inr (m, g4)"
    and so: "social_loop social_platforms brand d fol g4 = Inr (so, fol', g')"
    unfolding n_def x_def by blast
  have "0 \<le> n" using daily_orders_bounds unfolding n_def by (meson order_trans zero_le_numeral)
  with sales_loop_rows[OF sl] have "int (length s) = n" by simp
  with choice_in_set[OF c] sales_loop_rows[OF sl] marketing_loop_rows[OF ml] social_loop_rows[OF so]
  show ?thesis unfolding n_def by blast
qed

lemma day_step_chain:
  assumes "day_step brand d fol g = Inr (s, m, so, fol', g')" "fol p = Some f" "0 \<le> f"
  shows "\<exists>f'. fol' p = Some f'
           \<and> sorted (f # map Followers (filter (\<lambda>r. Platform r = p) so) @ [f'])"
proof -
  from day_step_shape[OF assms(1)] obtain g4 where
    "social_loop social_platforms brand d fol g4 = Inr (so, fol', g')" by blast
  from social_loop_chain[OF this assms(2,3)] show ?thesis .
qed

lemma day_step_known:
  assumes "brand \<in> {''Radiance'', ''GlowUp'', ''PureBeauty''}" "set social_platforms \<subseteq> dom fol"
  shows "\<exists>s m so fol' g'. day_step brand d fol g = Inr (s, m, so, fol', g')"
proof -
  define n where "n = nat (py_int (clamp (80 * generate_seasonal_multiplier d * weekday_factor d
                   + 15 * shd (np g)) 40 150))"
  obtain camp g2 where c: "choice campaigns (g\<lparr>np := stl (np g)\<rparr>) = Inr (camp, g2)"
    using choice_Inr[of campaigns "g\<lparr>np := stl (np g)\<rparr>"] by (auto simp: campaigns_def)
  obtain s g3 where s: "sales_loop n brand d camp g2 = Inr (s, g3)"
    using sales_loop_known[OF assms(1)] by blast
  obtain m g4 where m: "marketing_loop marketing_channels brand d camp
      (generate_seasonal_multiplier d) g3 = Inr (m, g4)"
    using marketing_loop_Inr[of marketing_channels] by blast
  obtain so fol' g5 where so: "social_loop social_platforms brand d fol g4 = Inr (so, fol', g5)"
    using social_loop_Inr[OF assms(2)] by blast
  show ?thesis using c s m so unfolding n_def
    by (simp add: day_step_def Let_def np_normal_def)
qed

lemma day_step_unknown:
  assumes "brand \<notin> {''Radiance'', ''GlowUp'', ''PureBeauty''}"
  shows "day_step brand d fol g = Inl KeyError"
proof -
  define n where "n = nat (py_int (clamp (80 * generate_seasonal_multiplier d * weekday_factor d
                   + 15 * shd (np g)) 40 150))"
  have "0 < n" using daily_orders_bounds[of "80 * generate_seasonal_multiplier d * weekday_factor d
                   + 15 * shd (np g)"] unfolding n_def by linarith
  obtain camp g2 where c: "choice campaigns (g\<lparr>np := stl (np g)\<rparr>) = Inr (camp, g2)"
    using choice_Inr[of campaigns "g\<lparr>np := stl (np g)\<rparr>"] by (auto simp: campaigns_def)
  have "sales_loop n brand d camp g2 = Inl KeyError"
    using sales_loop_unknown[OF assms \<open>0 < n\<close>] .
  then show ?thesis using c unfolding n_def
    by (simp add: day_step_def Let_def np_normal_def)
qed

section \<open>Facts about the loop over the days\<close>

lemma date_loop_Cons:
  assumes "date_loop (d # ds) brand fol g = Inr (ss, ms, sos, g')"
  shows "\<exists>s m so fol1 g1 ss' ms' sos'.
           day_step brand d fol g = Inr (s, m, so, fol1, g1)
           \<and> date_loop ds brand fol1 g1 = Inr (ss', ms', sos', g')
           \<and> ss = s @ ss' \<and> ms = m @ ms' \<and> sos = so @ sos'"
  using assms by (auto simp: bind_result_eq_Inr)

lemma day_step_keys:
  assumes "day_step brand d fol g = Inr (s, m, so, fol', g')"
  shows "(\<forall>r \<in> set s. Brand r = brand \<and> Date r = d)
         \<and> (\<forall>r \<in> set m. mkt_Brand r = brand \<and> mkt_Date r = d)
         \<and> (\<forall>r \<in> set so. soc_Brand r = brand \<and> soc_Date r = d
                \<and> Platform r \<in> set social_platforms)"
proof -
  from day_step_facts[OF assms] obtain camp where
    s: "\<forall>r \<in> set s. \<exists>g1 g2. sales_order brand d camp g1 = Inr (r, g2)"
    and m: "\<forall>r \<in> set m. \<exists>c g1 g2.
              marketing_row brand d camp (generate_seasonal_multiplier d) c g1 = Inr (r, g2)"
    and p: "map Platform so = social_platforms"
    and so: "\<forall>r \<in> set so. soc_Brand r = brand \<and> soc_Date r = d"
    by blast
  have "\<forall>r \<in> set s. Brand r = brand \<and> Date r = d"
    using s sales_order_keys by blast
  moreover have "\<forall>r \<in> set m. mkt_Brand r = brand \<and> mkt_Date r = d"
    using m marketing_row_keys by blast
  moreover have "\<forall>r \<in> set so. Platform r \<in> set social_platforms"
    using p by (metis image_eqI list.set_map)
  ultimately show ?thesis using so by blast
qed

lemma date_loop_keys:
  "date_loop ds brand fol g = Inr (ss, ms, sos, g') \<Longrightarrow>
     (\<forall>r \<in> set ss. Brand r = brand \<and> Date r \<in> set ds)
     \<and> (\<forall>r \<in> set ms. mkt_Brand r = brand \<and> mkt_Date r \<in> set ds)
     \<and> (\<forall>r \<in> set sos. soc_Brand r = brand \<and> soc_Date r \<in> set ds
            \<and> Platform r \<in> set social_platforms)"
proof (induction ds arbitrary: fol g ss ms sos)
  case Nil
  then show ?case by simp
next
  case (Cons d ds)
  from date_loop_Cons[OF Cons.prems] obtain s m so fol1 g1 ss' ms' sos' where
    day: "day_step brand d fol g = Inr (s, m, so, fol1, g1)"
    and rest: "date_loop ds brand fol1 g1 = Inr (ss', ms', sos', g')"
    and eq: "ss = s @ ss'" "ms = m @ ms'" "sos = so @ sos'"
    by blast
  from day_step_keys[OF day] Cons.IH[OF rest] show ?case unfolding eq by auto
qed

lemma date_loop_rows:
  "date_loop ds brand fol g = Inr (ss, ms, sos, g') \<Longrightarrow>
     (\<forall>r \<in> set ss. \<exists>d camp g1 g2. sales_order brand d camp g1 = Inr (r, g2))
     \<and> (\<forall>r \<in> set ms. \<exists>d camp sm c g1 g2. marketing_row brand d camp sm c g1 = Inr (r, g2))"
proof (induction ds arbitrary: fol g ss ms sos)
  case Nil
  then show ?case by simp
next
  case (Cons d ds)
  from date_loop_Cons[OF Cons.prems] obtain s m so fol1 g1 ss' ms' sos' where
    day: "day_step brand d fol g = Inr (s, m, so, fol1, g1)"
    and rest: "date_loop ds brand fol1 g1 = Inr (ss', ms', sos', g')"
    and eq: "ss = s @ ss'" "ms = m @ ms'" "sos = so @ sos'"
    by blast
  from day_step_facts[OF day] obtain camp where
    s: "\<forall>r \<in> set s. \<exists>g1 g2. sales_order brand d camp g1 = Inr (r, g2)"
    and m: "\<forall>r \<in> set m. \<exists>c g1 g2.
              marketing_row brand d camp (generate_seasonal_multiplier d) c g1 = Inr (r, g2)"
    by blast
  have "\<forall>r \<in> set s. \<exists>d camp g1 g2. sales_order brand d camp g1 = Inr (r, g2)"
    using s by blast
  moreover have "\<forall>r \<in> set m. \<exists>d camp sm c g1 g2. marketing_row brand d camp sm c g1 = Inr (r, g2)"
    using m by blast
  ultimately show ?case using Cons.IH[OF rest] unfolding eq by auto
qed

lemma filter_none: "(\<forall>r \<in> set rs. \<not> P r) \<Longrightarrow> filter P rs = []"
  by (induction rs) auto

lemma filter_all: "(\<forall>r \<in> set rs. P r) \<Longrightarrow> filter P rs = rs"
  by (induction rs) auto

lemma date_loop_day:
  "date_loop ds brand fol g = Inr (ss, ms, sos, g') \<Longrightarrow> distinct ds \<Longrightarrow> d \<in> set ds \<Longrightarrow>
     \<exists>fol1 g1 s m so fol2 g2.
        day_step brand d fol1 g1 = Inr (s, m, so, fol2, g2)
        \<and> filter (\<lambda>r. Date r = d) ss = s \<and> filter (\<lambda>r. mkt_Date r = d) ms = m"
proof (induction ds arbitrary: fol g ss ms sos)
  case Nil
  then show ?case by simp
next
  case (Cons e ds)
  from date_loop_Cons[OF Cons.prems(1)] obtain s m so fol1 g1 ss' ms' sos' where
    day: "day_step brand e fol g = Inr (s, m, so, fol1, g1)"
    and rest: "date_loop ds brand fol1 g1 = Inr (ss', ms', sos', g')"
    and eq: "ss = s @ ss'" "ms = m @ ms'" "sos = so @ sos'"
    by blast
  note k = day_step_keys[OF day] date_loop_keys[OF rest]
  show ?case
  proof (cases "d = e")
    case True
    with Cons.prems(2) have "d \<notin> set ds" by simp
    with k have "filter (\<lambda>r. Date r = d) ss' = []" "filter (\<lambda>r. mkt_Date r = d) ms' = []"
      by (auto intro!: filter_none)
    moreover from k True have "filter (\<lambda>r. Date r = d) s = s" "filter (\<lambda>r. mkt_Date r = d) m = m"
      by (auto intro!: filter_all)
    ultimately have "filter (\<lambda>r. Date r = d) ss = s" "filter (\<lambda>r. mkt_Date r = d) ms = m"
      unfolding eq by simp_all
    with day True show ?thesis by blast
  next
    case False
    with Cons.prems have d: "d \<in> set ds" "distinct ds" by simp_all
    from k False have "filter (\<lambda>r. Date r = d) s = []" "filter (\<lambda>r. mkt_Date r = d) m = []"
      by (auto intro!: filter_none)
    then have "filter (\<lambda>r. Date r = d) ss = filter (\<lambda>r. Date r = d) ss'"
      "filter (\<lambda>r. mkt_Date r = d) ms = filter (\<lambda>r. mkt_Date r = d) ms'"
      unfolding eq by simp_all
    with Cons.IH[OF rest d(2,1)] show ?thesis by (simp only:)
  qed
qed

lemma sorted_chain:
  assumes "sorted (f # xs @ [f1])" "sorted (f1 # ys)"
  shows "sorted ((f::int) # xs @ ys)"
proof -
  from assms(1) have 1: "\<forall>x \<in> set xs. f \<le> x" "f \<le> f1" "sorted xs" "\<forall>x \<in> set xs. x \<le> f1"
    by (auto simp: sorted_append)
  from assms(2) have 2: "\<forall>y \<in> set ys. f1 \<le> y" "sorted ys" by auto
  have "\<forall>x \<in> set xs. \<forall>y \<in> set ys. x \<le> y" using 1(4) 2(1) by (meson order_trans)
  moreover have "\<forall>y \<in> set ys. f \<le> y" using 1(2) 2(1) by (meson order_trans)
  ultimately show ?thesis using 1 2 by (auto simp: sorted_append)
qed

lemma date_loop_chain:
  "date_loop ds brand fol g = Inr (ss, ms, sos, g') \<Longrightarrow> fol p = Some f \<Longrightarrow> 0 \<le> f \<Longrightarrow>
     sorted (f # map Followers (filter (\<lambda>r. Platform r = p) sos))"
proof (induction ds arbitrary: fol g ss ms sos f)
  case Nil
  then show ?case by simp
next
  case (Cons d ds)
  from date_loop_Cons[OF Cons.prems(1)] obtain s m so fol1 g1 ss' ms' sos' where
    day: "day_step brand d fol g = Inr (s, m, so, fol1, g1)"
    and rest: "date_loop ds brand fol1 g1 = Inr (ss', ms', sos', g')"
    and eq: "sos = so @ sos'"
    by blast
  from day_step_chain[OF day Cons.prems(2,3)] obtain f1 where
    f1: "fol1 p = Some f1"
    and c: "sorted (f # map Followers (filter (\<lambda>r. Platform r = p) so) @ [f1])" by blast
  from c have "f \<le> f1" by (simp add: sorted_append)
  with Cons.prems(3) have "0 \<le> f1" by simp
  from sorted_chain[OF c Cons.IH[OF rest f1 this]] show ?case unfolding eq by simp
qed

lemma filter_eq_distinct:
  "distinct xs \<Longrightarrow> filter (\<lambda>q. q = p) xs = (if p \<in> set xs then [p] else [])"
  by (induction xs) auto

lemma distinct_social_platforms: "distinct social_platforms"
  by (simp add: social_platforms_def)

lemma social_platforms_filter:
  "filter (\<lambda>q. q = p) social_platforms = (if p \<in> set social_platforms then [p] else [])"
  by (rule filter_eq_distinct[OF distinct_social_platforms])



lemma map_const_replicate: "(\<forall>r \<in> set xs. f r = d) \<Longrightarrow> map f xs = replicate (length xs) d"
  by (induction xs) auto

lemma day_social_dates:
  assumes "day_step brand d fol g = Inr (s, m, so, fol', g')"
  shows "map soc_Date (filter (\<lambda>r. Platform r = p) so)
           = (if p \<in> set social_platforms then [d] else [])"
proof -
  from day_step_facts[OF assms] obtain camp x where
    p: "map Platform so = social_platforms"
    and k: "\<forall>r \<in> set so. soc_Brand r = brand \<and> soc_Date r = d" by blast
  have "length (filter (\<lambda>r. Platform r = p) so)
      = length (filter (\<lambda>q. q = p) (map Platform so))"
    by (simp add: filter_map comp_def)
  also have "\<dots> = length (if p \<in> set social_platforms then [p] else [])"
    by (simp only: p social_platforms_filter)
  finally have len: "length (filter (\<lambda>r. Platform r = p) so)
      = (if p \<in> set social_platforms then 1 else 0)" by simp
  have "\<forall>r \<in> set (filter (\<lambda>r. Platform r = p) so). soc_Date r = d" using k by simp
  from map_const_replicate[OF this] len show ?thesis by simp
qed

lemma date_loop_social_dates:
  "date_loop ds brand fol g = Inr (ss, ms, sos, g') \<Longrightarrow>
     map soc_Date (filter (\<lambda>r. Platform r = p) sos)
       = (if p \<in> set social_platforms then ds else [])"
proof (induction ds arbitrary: fol g ss ms sos)
  case Nil
  then show ?case by simp
next
  case (Cons d ds)
  from date_loop_Cons[OF Cons.prems(1)] obtain s m so fol1 g1 ss' ms' sos' where
    day: "day_step brand d fol g = Inr (s, m, so, fol1, g1)"
    and rest: "date_loop ds brand fol1 g1 = Inr (ss', ms', sos', g')"
    and eq: "sos = so @ sos'"
    by blast
  from day_social_dates[OF day, of p] Cons.IH[OF rest] show ?case unfolding eq by simp
qed

lemma date_loop_known:
  assumes "brand \<in> {''Radiance'', ''GlowUp'', ''PureBeauty''}"
  shows "set social_platforms \<subseteq> dom fol \<Longrightarrow>
           \<exists>ss ms sos g'. date_loop ds brand fol g = Inr (ss, ms, sos, g')"
proof (induction ds arbitrary: fol g)
  case Nil
  then show ?case by simp
next
  case (Cons d ds)
  from day_step_known[OF assms Cons.prems] obtain s m so fol1 g1 where
    day: "day_step brand d fol g = Inr (s, m, so, fol1, g1)" by blast
  from day_step_facts[OF day] have "dom fol1 = dom fol" by blast
  with Cons.prems have "set social_platforms \<subseteq> dom fol1" by simp
  from Cons.IH[OF this, of g1] obtain ss ms sos g2 where
    "date_loop ds brand fol1 g1 = Inr (ss, ms, sos, g2)" by blast
  with day show ?case by simp
qed

lemma date_loop_unknown:
  "brand \<notin> {''Radiance'', ''GlowUp'', ''PureBeauty''} \<Longrightarrow> ds \<noteq> []
     \<Longrightarrow> date_loop ds brand fol g = Inl KeyError"
  by (cases ds) (simp_all add: day_step_unknown)

section \<open>Facts about the reviews\<close>

lemma review_row_keys:
  "review_row brand rd g = Inr (r, g') \<Longrightarrow> rev_Brand r = brand \<and> rev_Date r = rd"
  by (auto simp: review_row_def bind_result_eq_Inr)

lemma review_row_Inr: "\<exists>r g'. review_row brand rd g = Inr (r, g')"
proof -
  have "\<exists>x g'. choices_weighted sentiments sentiment_weights g = Inr (x, g')"
    by (rule choices_weighted_Inr) (simp_all add: sentiments_def sentiment_weights_def accumulate_def)
  then obtain sentiment g1 where
    s: "choices_weighted sentiments sentiment_weights g = Inr (sentiment, g1)" by blast
  obtain pos g2 where p: "randint 4 5 g1 = Inr (pos, g2)" using randint_Inr[of 4 5 g1] by auto
  obtain neg g3 where n: "randint 1 2 g2 = Inr (neg, g3)" using randint_Inr[of 1 2 g2] by auto
  from choices_weighted_in_set[OF s] have "sentiment \<in> set sentiments" .
  then have "\<exists>v. subscript [(''Positive'', pos), (''Neutral'', 3), (''Negative'', neg)] sentiment = Inr v"
    by (auto simp: sentiments_def subscript_def)
  with s p n show ?thesis by (auto simp: review_row_def)
qed

lemma reviews_loop_rows:
  "reviews_loop ds brand g = Inr (rs, g') \<Longrightarrow>
     map rev_Date rs = ds \<and> (\<forall>r \<in> set rs. rev_Brand r = brand)"
proof (induction ds arbitrary: g rs)
  case Nil
  then show ?case by simp
next
  case (Cons d ds)
  from Cons.prems obtain r g1 rs' where
    r: "review_row brand d g = Inr (r, g1)"
    and l: "reviews_loop ds brand g1 = Inr (rs', g')"
    and rs: "rs = r # rs'"
    by (auto simp: bind_result_eq_Inr)
  from Cons.IH[OF l] review_row_keys[OF r] rs show ?case by simp
qed

lemma reviews_loop_Inr: "\<exists>rs g'. reviews_loop ds brand g = Inr (rs, g')"
proof (induction ds arbitrary: g)
  case Nil
  then show ?case by simp
next
  case (Cons d ds)
  obtain r g1 where r: "review_row brand d g = Inr (r, g1)" using review_row_Inr by blast
  from Cons[of g1] obtain rs g2 where "reviews_loop ds brand g1 = Inr (rs, g2)" by blast
  with r show ?case by simp
qed

section \<open>Facts about one brand\<close>

lemma brand_step_shape:
  assumes "brand_step dates brand g = Inr (s, m, so, rv, g')"
  shows "\<exists>fol g0 g1 g2 review_dates g3.
           init_followers social_platforms Map.empty g0 = Inr (fol, g1)
           \<and> date_loop dates brand fol g1 = Inr (s, m, so, g2)
           \<and> choices_k dates 120 g2 = Inr (review_dates, g3)
           \<and> reviews_loop review_dates brand g3 = Inr (rv, g')"
  using assms by (auto simp: brand_step_def bind_result_eq_Inr) blast

lemma brand_step_keys:
  assumes "brand_step dates brand g = Inr (s, m, so, rv, g')"
  shows "(\<forall>r \<in> set s. Brand r = brand \<and> Date r \<in> set dates)
         \<and> (\<forall>r \<in> set m. mkt_Brand r = brand \<and> mkt_Date r \<in> set dates)
         \<and> (\<forall>r \<in> set so. soc_Brand r = brand \<and> soc_Date r \<in> set dates)
         \<and> (\<forall>r \<in> set rv. rev_Brand r = brand \<and> rev_Date r \<in> set dates)"
proof -
  from brand_step_shape[OF assms] obtain fol g1 g2 review_dates g3 where
    d: "date_loop dates brand fol g1 = Inr (s, m, so, g2)"
    and c: "choices_k dates 120 g2 = Inr (review_dates, g3)"
    and r: "reviews_loop review_dates brand g3 = Inr (rv, g')" by blast
  from reviews_loop_rows[OF r] choices_k_facts[OF c]
  have "\<forall>r \<in> set rv. rev_Brand r = brand \<and> rev_Date r \<in> set dates"
    by (metis image_eqI list.set_map subsetD)
  with date_loop_keys[OF d] show ?thesis by blast
qed

lemma brand_step_reviews:
  assumes "brand_step dates brand g = Inr (s, m, so, rv, g')"
  shows "length rv = 120"
proof -
  from brand_step_shape[OF assms] obtain g2 review_dates g3 where
    c: "choices_k dates 120 g2 = Inr (review_dates, g3)"
    and r: "reviews_loop review_dates brand g3 = Inr (rv, g')" by blast
  from reviews_loop_rows[OF r] choices_k_facts[OF c] show ?thesis by (metis length_map)
qed

lemma brand_step_followers:
  assumes "brand_step dates brand g = Inr (s, m, so, rv, g')"
  shows "sorted (map Followers (filter (\<lambda>r. Platform r = p) so))"
proof -
  from brand_step_shape[OF assms] obtain fol g0 g1 g2 where
    i: "init_followers social_platforms Map.empty g0 = Inr (fol, g1)"
    and d: "date_loop dates brand fol g1 = Inr (s, m, so, g2)" by blast
  show ?thesis
  proof (cases "fol p")
    case None
    with init_followers_facts[OF i] have "p \<notin> set social_platforms" by auto
    with date_loop_keys[OF d] have "filter (\<lambda>r. Platform r = p) so = []"
      by (auto intro!: filter_none)
    then show ?thesis by simp
  next
    case (Some f)
    with init_followers_facts[OF i] have "0 \<le> f" by fastforce
    from date_loop_chain[OF d Some this] show ?thesis by simp
  qed
qed

lemma brand_step_social_dates:
  assumes "brand_step dates brand g = Inr (s, m, so, rv, g')"
  shows "map soc_Date (filter (\<lambda>r. Platform r = p) so)
           = (if p \<in> set social_platforms then dates else [])"
proof -
  from brand_step_shape[OF assms] obtain fol g1 g2 where
    "date_loop dates brand fol g1 = Inr (s, m, so, g2)" by blast
  from date_loop_social_dates[OF this] show ?thesis .
qed

lemma brand_step_known:
  assumes "brand \<in> {''Radiance'', ''GlowUp'', ''PureBeauty''}" "dates \<noteq> []"
  shows "\<exists>s m so rv g'. brand_step dates brand g = Inr (s, m, so, rv, g')"
proof -
  obtain fol g1 where i: "init_followers social_platforms Map.empty g = Inr (fol, g1)"
    using init_followers_Inr by blast
  from init_followers_facts[OF i] have "set social_platforms \<subseteq> dom fol" by simp
  from date_loop_known[OF assms(1) this] obtain s m so g2 where
    d: "date_loop dates brand fol g1 = Inr (s, m, so, g2)" by blast
  obtain review_dates g3 where c: "choices_k dates 120 g2 = Inr (review_dates, g3)"
    using choices_k_Inr[OF assms(2)] by blast
  obtain rv g4 where r: "reviews_loop review_dates brand g3 = Inr (rv, g4)"
    using reviews_loop_Inr by blast
  from i d c r show ?thesis by (simp add: brand_step_def)
qed

lemma brand_step_unknown:
  assumes "brand \<notin> {''Radiance'', ''GlowUp'', ''PureBeauty''}" "dates \<noteq> []"
  shows "brand_step dates brand g = Inl KeyError"
proof -
  obtain fol g1 where i: "init_followers social_platforms Map.empty g = Inr (fol, g1)"
    using init_followers_Inr by blast
  with date_loop_unknown[OF assms, of fol g1] show ?thesis by (simp add: brand_step_def)
qed

lemma brand_step_no_dates: "brand_step [] brand g = Inl IndexError"
proof -
  obtain fol g1 where i: "init_followers social_platforms Map.empty g = Inr (fol, g1)"
    using init_followers_Inr by blast
  then show ?thesis by (simp add: brand_step_def choices_k_empty)
qed

lemma brand_step_rows:
  assumes "brand_step dates brand g = Inr (s, m, so, rv, g')"
  shows "(\<forall>r \<in> set s. \<exists>d camp g1 g2. sales_order brand d camp g1 = Inr (r, g2))
         \<and> (\<forall>r \<in> set m. \<exists>d camp sm c g1 g2. marketing_row brand d camp sm c g1 = Inr (r, g2))"
proof -
  from brand_step_shape[OF assms] obtain fol g1 g2 where
    "date_loop dates brand fol g1 = Inr (s, m, so, g2)" by blast
  from date_loop_rows[OF this] show ?thesis .
qed

lemma brand_step_day:
  assumes "brand_step dates brand g = Inr (s, m, so, rv, g')" "distinct dates" "d \<in> set dates"
  shows "\<exists>fol1 g1 s1 m1 so1 fol2 g2.
           day_step brand d fol1 g1 = Inr (s1, m1, so1, fol2, g2)
           \<and> filter (\<lambda>r. Date r = d) s = s1 \<and> filter (\<lambda>r. mkt_Date r = d) m = m1"
proof -
  from brand_step_shape[OF assms(1)] obtain fol g1 g2 where
    "date_loop dates brand fol g1 = Inr (s, m, so, g2)" by blast
  from date_loop_day[OF this assms(2,3)] show ?thesis .
qed

section \<open>Facts about the loop over the brands\<close>

lemma brand_loop_Cons:
  assumes "brand_loop (b # bs) dates g = Inr (ss, ms, sos, rvs, g')"
  shows "\<exists>s m so rv g1 ss' ms' sos' rvs'.
           brand_step dates b g = Inr (s, m, so, rv, g1)
           \<and> brand_loop bs dates g1 = Inr (ss', ms', sos', rvs', g')
           \<and> ss = s @ ss' \<and> ms = m @ ms' \<and> sos = so @ sos' \<and> rvs = rv @ rvs'"
  using assms by (auto simp: bind_result_eq_Inr)

lemma brand_loop_keys:
  "brand_loop bs dates g = Inr (ss, ms, sos, rvs, g') \<Longrightarrow>
     (\<forall>r \<in> set ss. Brand r \<in> set bs \<and> Date r \<in> set dates)
     \<and> (\<forall>r \<in> set ms. mkt_Brand r \<in> set bs \<and> mkt_Date r \<in> set dates)
     \<and> (\<forall>r \<in> set sos. soc_Brand r \<in> set bs \<and> soc_Date r \<in> set dates)
     \<and> (\<forall>r \<in> set rvs. rev_Brand r \<in> set bs \<and> rev_Date r \<in> set dates)"
proof (induction bs arbitrary: g ss ms sos rvs)
  case Nil
  then show ?case by simp
next
  case (Cons b bs)
  from brand_loop_Cons[OF Cons.prems] obtain s m so rv g1 ss' ms' sos' rvs' where
    st: "brand_step dates b g = Inr (s, m, so, rv, g1)"
    and rest: "brand_loop bs dates g1 = Inr (ss', ms', sos', rvs', g')"
    and eq: "ss = s @ ss'" "ms = m @ ms'" "sos = so @ sos'" "rvs = rv @ rvs'"
    by blast
  from brand_step_keys[OF st] Cons.IH[OF rest] show ?case unfolding eq by auto
qed

lemma brand_loop_rows:
  "brand_loop bs dates g = Inr (ss, ms, sos, rvs, g') \<Longrightarrow>
     (\<forall>r \<in> set ss. \<exists>b d camp g1 g2. sales_order b d camp g1 = Inr (r, g2))
     \<and> (\<forall>r \<in> set ms. \<exists>b d camp sm c g1 g2. marketing_row b d camp sm c g1 = Inr (r, g2))"
proof (induction bs arbitrary: g ss ms sos rvs)
  case Nil
  then show ?case by simp
next
  case (Cons b bs)
  from brand_loop_Cons[OF Cons.prems] obtain s m so rv g1 ss' ms' sos' rvs' where
    st: "brand_step dates b g = Inr (s, m, so, rv, g1)"
    and rest: "brand_loop bs dates g1 = Inr (ss', ms', sos', rvs', g')"
    and eq: "ss = s @ ss'" "ms = m @ ms'"
    by blast
  from brand_step_rows[OF st] have
    "\<forall>r \<in> set s. \<exists>b d camp g1 g2. sales_order b d camp g1 = Inr (r, g2)"
    "\<forall>r \<in> set m. \<exists>b d camp sm c g1 g2. marketing_row b d camp sm c g1 = Inr (r, g2)"
    by blast+
  with Cons.IH[OF rest] show ?case unfolding eq by auto
qed

lemma brand_loop_brand:
  "brand_loop bs dates g = Inr (ss, ms, sos, rvs, g') \<Longrightarrow> distinct bs \<Longrightarrow> b \<in> set bs \<Longrightarrow>
     \<exists>g1 s m so rv g2.
        brand_step dates b g1 = Inr (s, m, so, rv, g2)
        \<and> filter (\<lambda>r. Brand r = b) ss = s \<and> filter (\<lambda>r. mkt_Brand r = b) ms = m
        \<and> filter (\<lambda>r. soc_Brand r = b) sos = so \<and> filter (\<lambda>r. rev_Brand r = b) rvs = rv"
proof (induction bs arbitrary: g ss ms sos rvs)
  case Nil
  then show ?case by simp
next
  case (Cons c bs)
  from brand_loop_Cons[OF Cons.prems(1)] obtain s m so rv g1 ss' ms' sos' rvs' where
    st: "brand_step dates c g = Inr (s, m, so, rv, g1)"
    and rest: "brand_loop bs dates g1 = Inr (ss', ms', sos', rvs', g')"
    and eq: "ss = s @ ss'" "ms = m @ ms'" "sos = so @ sos'" "rvs = rv @ rvs'"
    by blast
  note k = brand_step_keys[OF st] brand_loop_keys[OF rest]
  show ?case
  proof (cases "b = c")
    case True
    with Cons.prems(2) have nb: "b \<notin> set bs" by simp
    have "filter (\<lambda>r. Brand r = b) ss' = []" using k(2) nb by (intro filter_none) blast
    moreover have "filter (\<lambda>r. mkt_Brand r = b) ms' = []" using k(2) nb by (intro filter_none) blast
    moreover have "filter (\<lambda>r. soc_Brand r = b) sos' = []" using k(2) nb by (intro filter_none) blast
    moreover have "filter (\<lambda>r. rev_Brand r = b) rvs' = []" using k(2) nb by (intro filter_none) blast
    moreover have "filter (\<lambda>r. Brand r = b) s = s" using k(1) True by (intro filter_all) blast
    moreover have "filter (\<lambda>r. mkt_Brand r = b) m = m" using k(1) True by (intro filter_all) blast
    moreover have "filter (\<lambda>r. soc_Brand r = b) so = so" using k(1) True by (intro filter_all) blast
    moreover have "filter (\<lambda>r. rev_Brand r = b) rv = rv" using k(1) True by (intro filter_all) blast
    ultimately have "filter (\<lambda>r. Brand r = b) ss = s" "filter (\<lambda>r. mkt_Brand r = b) ms = m"
      "filter (\<lambda>r. soc_Brand r = b) sos = so" "filter (\<lambda>r. rev_Brand r = b) rvs = rv"
      unfolding eq by simp_all
    with st True show ?thesis by blast
  next
    case False
    with Cons.prems have d: "b \<in> set bs" "distinct bs" by simp_all
    have "filter (\<lambda>r. Brand r = b) s = []" using k(1) False by (intro filter_none) blast
    moreover have "filter (\<lambda>r. mkt_Brand r = b) m = []" using k(1) False by (intro filter_none) blast
    moreover have "filter (\<lambda>r. soc_Brand r = b) so = []" using k(1) False by (intro filter_none) blast
    moreover have "filter (\<lambda>r. rev_Brand r = b) rv = []" using k(1) False by (intro filter_none) blast
    ultimately have "filter (\<lambda>r. Brand r = b) ss = filter (\<lambda>r. Brand r = b) ss'"
      "filter (\<lambda>r. mkt_Brand r = b) ms = filter (\<lambda>r. mkt_Brand r = b) ms'"
      "filter (\<lambda>r. soc_Brand r = b) sos = filter (\<lambda>r. soc_Brand r = b) sos'"
      "filter (\<lambda>r. rev_Brand r = b) rvs = filter (\<lambda>r. rev_Brand r = b) rvs'"
      unfolding eq by simp_all
    with Cons.IH[OF rest d(2,1)] show ?thesis by (simp only:)
  qed
qed

lemma brand_loop_known:
  "set bs \<subseteq> {''Radiance'', ''GlowUp'', ''PureBeauty''} \<Longrightarrow> dates \<noteq> [] \<Longrightarrow>
     \<exists>ss ms sos rvs g'. brand_loop bs dates g = Inr (ss, ms, sos, rvs, g')"
proof (induction bs arbitrary: g)
  case Nil
  then show ?case by simp
next
  case (Cons b bs)
  then have "b \<in> {''Radiance'', ''GlowUp'', ''PureBeauty''}" by simp
  from brand_step_known[OF this Cons.prems(2)] obtain s m so rv g1 where
    st: "brand_step dates b g = Inr (s, m, so, rv, g1)" by blast
  from Cons have "set bs \<subseteq> {''Radiance'', ''GlowUp'', ''PureBeauty''}" by simp
  from Cons.IH[OF this Cons.prems(2), of g1] obtain ss ms sos rvs g2 where
    "brand_loop bs dates g1 = Inr (ss, ms, sos, rvs, g2)" by blast
  with st show ?case by simp
qed

lemma brand_loop_unknown:
  "b \<in> set bs \<Longrightarrow> b \<notin> {''Radiance'', ''GlowUp'', ''PureBeauty''} \<Longrightarrow> dates \<noteq> [] \<Longrightarrow>
     brand_loop bs dates g = Inl KeyError"
proof (induction bs arbitrary: g)
  case Nil
  then show ?case by simp
next
  case (Cons c bs)
  show ?case
  proof (cases "c \<in> {''Radiance'', ''GlowUp'', ''PureBeauty''}")
    case True
    with Cons.prems have "b \<in> set bs" by auto
    from Cons.IH[OF this Cons.prems(2,3)] have r: "\<And>g1. brand_loop bs dates g1 = Inl KeyError" .
    from brand_step_known[OF True Cons.prems(3)] obtain s m so rv g1 where
      "brand_step dates c g = Inr (s, m, so, rv, g1)" by blast
    with r[of g1] show ?thesis by simp
  next
    case False
    from brand_step_unknown[OF False Cons.prems(3)] show ?thesis by simp
  qed
qed

lemma brand_loop_no_dates: "bs \<noteq> [] \<Longrightarrow> brand_loop bs [] g = Inl IndexError"
  by (cases bs) (simp_all add: brand_step_no_dates)

lemma brand_loop_nonempty:
  assumes "brand_loop bs dates g = Inr (ss, ms, sos, rvs, g')" "bs \<noteq> []"
  shows "rvs \<noteq> [] \<and> dates \<noteq> []"
proof -
  from assms(2) obtain b bs' where bs: "bs = b # bs'" by (cases bs) auto
  from brand_loop_Cons[OF assms(1)[unfolded bs]] obtain s m so rv g1 rvs' where
    st: "brand_step dates b g = Inr (s, m, so, rv, g1)" and eq: "rvs = rv @ rvs'" by blast
  from brand_step_reviews[OF st] have "rv \<noteq> []" by auto
  moreover have "dates \<noteq> []" using st brand_step_no_dates by fastforce
  ultimately show ?thesis using eq by simp
qed

section \<open>Facts about the assembled result\<close>

lemma to_datetime_Date_rows:
  "to_datetime_Date (DataFrame ks recs) = Inr df \<Longrightarrow> rows df = recs"
  by (auto simp: to_datetime_Date_def DataFrame_def split: if_splits)

lemma to_datetime_Date_empty: "to_datetime_Date (DataFrame ks []) = Inl KeyError"
  by (simp add: to_datetime_Date_def DataFrame_def)

lemma to_datetime_Date_Inr:
  "recs \<noteq> [] \<Longrightarrow> ''Date'' \<in> set ks \<Longrightarrow> to_datetime_Date (DataFrame ks recs) = Inr (DataFrame ks recs)"
  by (simp add: to_datetime_Date_def DataFrame_def)

lemma date_range_nonneg:
  "0 \<le> days \<Longrightarrow> date_range neg start days = Inr (map (\<lambda>i. start + int i) [0..<nat days])"
  by (simp add: date_range_def)

lemma date_range_facts:
  assumes "0 \<le> days" "date_range neg start days = Inr dates"
  shows "distinct dates \<and> sorted_wrt (<) dates \<and> set dates = {start..<start + days}
         \<and> int (length dates) = days"
proof -
  from assms have d: "dates = map (\<lambda>i. start + int i) [0..<nat days]"
    by (simp add: date_range_def)
  have s: "sorted_wrt (<) dates" unfolding d
    by (simp add: sorted_wrt_map sorted_wrt_upt[unfolded sorted_wrt_iff_nth_less] sorted_wrt_iff_nth_less)
  then have "distinct dates" by (simp add: strict_sorted_iff)
  moreover have "set dates = {start..<start + days}"
  proof (intro set_eqI iffI)
    fix x assume "x \<in> set dates"
    then show "x \<in> {start..<start + days}" using assms(1) unfolding d by auto
  next
    fix x assume x: "x \<in> {start..<start + days}"
    then have "x = start + int (nat (x - start))" "nat (x - start) < nat days" by auto
    then show "x \<in> set dates" unfolding d by (metis (no_types, lifting) atLeast0LessThan
          image_eqI lessThan_iff list.set_map set_upt)
  qed
  ultimately show ?thesis using s assms(1) unfolding d by simp
qed

lemma generate_shape:
  assumes "generate_mock_data neg g start days brands = Inr (out, g')"
  shows "\<exists>dates. date_range neg start days = Inr dates
           \<and> brand_loop (brands_or_default brands) dates g
               = Inr (rows (sales_df out), rows (marketing_df out),
                      rows (social_df out), rows (reviews_df out), g')
           \<and> campaign_catalog out = campaigns"
proof -
  from assms obtain dates s m so rv sales marketing social reviews where
    d: "date_range neg start days = Inr dates"
    and b: "brand_loop (brands_or_default brands) dates g = Inr (s, m, so, rv, g')"
    and t: "to_datetime_Date (DataFrame
             [''Brand'', ''Date'', ''Category'', ''Product'', ''Channel'', ''Offer'', ''Campaign'',
              ''Qty'', ''UnitPrice'', ''Revenue''] s) = Inr sales"
      "to_datetime_Date (DataFrame
             [''Brand'', ''Date'', ''Channel'', ''Campaign'', ''Traffic'', ''CTR'', ''CPC''] m)
         = Inr marketing"
      "to_datetime_Date (DataFrame
             [''Brand'', ''Date'', ''Platform'', ''EngagementRate'', ''Followers''] so) = Inr social"
      "to_datetime_Date (DataFrame [''Brand'', ''Date'', ''Sentiment'', ''Rating''] rv) = Inr reviews"
    and o: "out = \<lparr>sales_df = sales, marketing_df = marketing, social_df = social,
                   reviews_df = reviews, campaign_catalog = campaigns\<rparr>"
    by (auto simp: generate_mock_data_def bind_result_eq_Inr)
  from t[THEN to_datetime_Date_rows] d b o show ?thesis by simp
qed

lemma date_loop_nonempty:
  assumes "date_loop ds brand fol g = Inr (ss, ms, sos, g')" "ds \<noteq> []"
  shows "ss \<noteq> [] \<and> ms \<noteq> [] \<and> sos \<noteq> []"
proof -
  from assms(2) obtain d ds' where ds: "ds = d # ds'" by (cases ds) auto
  from date_loop_Cons[OF assms(1)[unfolded ds]] obtain s m so fol1 g1 ss' ms' sos' where
    day: "day_step brand d fol g = Inr (s, m, so, fol1, g1)"
    and eq: "ss = s @ ss'" "ms = m @ ms'" "sos = so @ sos'" by blast
  from day_step_facts[OF day] obtain x where
    l: "int (length s) = py_int (clamp (80 * generate_seasonal_multiplier d * weekday_factor d
                   + 15 * x) 40 150)"
    and m: "map mkt_Channel m = marketing_channels"
    and so: "map Platform so = social_platforms" by blast
  from l daily_orders_bounds[of "80 * generate_seasonal_multiplier d * weekday_factor d + 15 * x"]
  have "s \<noteq> []" by auto
  moreover from m have "m \<noteq> []" by (auto simp: marketing_channels_def)
  moreover from so have "so \<noteq> []" by (auto simp: social_platforms_def)
  ultimately show ?thesis unfolding eq by simp
qed

lemma brand_loop_tables_nonempty:
  assumes "brand_loop bs dates g = Inr (ss, ms, sos, rvs, g')" "bs \<noteq> []"
  shows "ss \<noteq> [] \<and> ms \<noteq> [] \<and> sos \<noteq> [] \<and> rvs \<noteq> []"
proof -
  from assms(2) obtain b bs' where bs: "bs = b # bs'" by (cases bs) auto
  from brand_loop_Cons[OF assms(1)[unfolded bs]] obtain s m so rv g1 ss' ms' sos' rvs' where
    st: "brand_step dates b g = Inr (s, m, so, rv, g1)"
    and eq: "ss = s @ ss'" "ms = m @ ms'" "sos = so @ sos'" "rvs = rv @ rvs'" by blast
  from brand_loop_nonempty[OF assms] have d: "dates \<noteq> []" "rvs \<noteq> []" by simp_all
  from brand_step_shape[OF st] obtain fol g1 g2 where
    "date_loop dates b fol g1 = Inr (s, m, so, g2)" by blast
  from date_loop_nonempty[OF this d(1)] d(2) show ?thesis unfolding eq by simp
qed

lemma generate_known:
  assumes "set (brands_or_default brands) \<subseteq> {''Radiance'', ''GlowUp'', ''PureBeauty''}"
    "brands_or_default brands \<noteq> []" "0 < days"
  shows "\<exists>out g'. generate_mock_data neg g start days brands = Inr (out, g')"
proof -
  define dates where "dates = map (\<lambda>i. start + int i) [0..<nat days]"
  have d: "date_range neg start days = Inr dates" using assms(3)
    by (simp add: date_range_def dates_def)
  have "dates \<noteq> []" using assms(3) by (simp add: dates_def)
  from brand_loop_known[OF assms(1) this] obtain ss ms sos rvs g' where
    b: "brand_loop (brands_or_default brands) dates g = Inr (ss, ms, sos, rvs, g')" by blast
  from brand_loop_tables_nonempty[OF b assms(2)] have
    "ss \<noteq> []" "ms \<noteq> []" "sos \<noteq> []" "rvs \<noteq> []" by simp_all
  then show ?thesis using d b
    by (simp add: generate_mock_data_def to_datetime_Date_Inr)
qed

section \<open>The Sales table\<close>

text \<open>
  C3. In every row of the generated Sales table the quantity is an integer that is at
  least 1, the unit price lies between 0.6 and 1.5 times the base price of the row's
  category, and the revenue is the product of unit price and quantity rounded to two
  decimals: it is computed from the two when the row is built.
\<close>

theorem sales_rows_consistent:
  assumes "generate_mock_data neg g start days brands = Inr (out, g')"
    and "r \<in> set (rows (sales_df out))"
  shows "1 \<le> Qty r \<and> Revenue r = py_round2 (UnitPrice r * of_int (Qty r))
         \<and> (\<exists>base. subscript base_price (Category r) = Inr base
                \<and> base * 0.6 \<le> UnitPrice r \<and> UnitPrice r \<le> base * 1.5)"
proof -
  from generate_shape[OF assms(1)] obtain dates where
    "brand_loop (brands_or_default brands) dates g
       = Inr (rows (sales_df out), rows (marketing_df out),
              rows (social_df out), rows (reviews_df out), g')" by blast
  from brand_loop_rows[OF this] assms(2) obtain b d camp g1 g2 where
    "sales_order b d camp g1 = Inr (r, g2)" by blast
  from sales_order_numbers[OF this] show ?thesis .
qed

section \<open>The Marketing table\<close>

text \<open>
  C4. In every row of the generated Marketing table the traffic is an integer from 100 to
  5000, the click-through rate lies in [0.3, 4.5], a cost per click is present exactly
  when the channel is Paid, and a cost per click that is present lies in [0.3, 2.0].
\<close>

theorem marketing_rows_in_range:
  assumes "generate_mock_data neg g start days brands = Inr (out, g')"
    and "r \<in> set (rows (marketing_df out))"
  shows "100 \<le> Traffic r \<and> Traffic r \<le> 5000 \<and> 0.3 \<le> CTR r \<and> CTR r \<le> 4.5
         \<and> (CPC r \<noteq> None \<longleftrightarrow> mkt_Channel r = ''Paid'')
         \<and> (\<forall>p. CPC r = Some p \<longrightarrow> 0.3 \<le> p \<and> p \<le> 2.0)"
proof -
  from generate_shape[OF assms(1)] obtain dates where
    "brand_loop (brands_or_default brands) dates g
       = Inr (rows (sales_df out), rows (marketing_df out),
              rows (social_df out), rows (reviews_df out), g')" by blast
  from brand_loop_rows[OF this] assms(2) obtain b d camp sm c g1 g2 where
    "marketing_row b d camp sm c g1 = Inr (r, g2)" by blast
  from marketing_row_numbers[OF this] show ?thesis .
qed

section \<open>The sample run, computed\<close>

lemma sample_py [simp]: "py_random sample_rng = (0, sample_rng)"
  by (simp add: py_random_def sample_rng_def)

lemma sample_normal [simp]: "np_normal loc scale sample_rng = (loc - 20 * scale, sample_rng)"
  by (simp add: np_normal_def sample_rng_def)

lemma sample_exponential [simp]: "np_exponential scale sample_rng = (scale * 20, sample_rng)"
  by (simp add: np_exponential_def sample_rng_def)

lemma sample_uniform [simp]: "np_uniform low high sample_rng = (low, sample_rng)"
  by (simp add: np_uniform_def sample_rng_def)

lemma sample_choice: "seq \<noteq> [] \<Longrightarrow> choice seq sample_rng = Inr (hd seq, sample_rng)"
  by (simp add: choice_def hd_conv_nth)

lemma sample_choices_weighted:
  "length ws = length population \<Longrightarrow> ws \<noteq> [] \<Longrightarrow> 0 < hd ws \<Longrightarrow> 0 < last (accumulate ws)
     \<Longrightarrow> choices_weighted population ws sample_rng = Inr (hd population, sample_rng)"
proof -
  assume a: "length ws = length population" "ws \<noteq> []" "0 < hd ws" "0 < last (accumulate ws)"
  then obtain w ws' where ws: "ws = w # ws'" by (cases ws) auto
  from a ws obtain x xs where p: "population = x # xs" by (cases population) auto
  have "bisect (accumulate ws) 0 (length population - 1) = 0"
    using a(3) ws by (cases "length population - 1") (simp_all add: bisect_def accumulate_def)
  moreover have "accumulate ws \<noteq> []" using ws by (simp add: accumulate_def)
  ultimately show ?thesis using a p
    by (simp add: choices_weighted_def Let_def)
qed

lemma sample_randint: "a \<le> b \<Longrightarrow> randint a b sample_rng = Inr (a, sample_rng)"
  by (simp add: randint_def)

lemma sample_sales_order:
  "sales_order ''Radiance'' d ''Summer Glow'' sample_rng = Inr (sample_sale d, sample_rng)"
proof -
  have 1: "subscript cat_weights ''Radiance'' = Inr [0.4, 0.3, 0.15, 0.1, 0.05]"
    by (simp add: subscript_def cat_weights_def)
  have 2: "choices_weighted (map fst categories) [0.4, 0.3, 0.15, 0.1, 0.05] sample_rng
      = Inr (''Skincare'', sample_rng)"
    by (subst sample_choices_weighted) (simp_all add: categories_def accumulate_def)
  have 3: "subscript categories ''Skincare''
      = Inr [''Hydrating Serum'', ''SPF50 Sunscreen'', ''Vitamin C Cream'', ''Gentle Cleanser'']"
    by (simp add: subscript_def categories_def)
  have 4: "choice [''Hydrating Serum'', ''SPF50 Sunscreen'', ''Vitamin C Cream'', ''Gentle Cleanser'']
      sample_rng = Inr (''Hydrating Serum'', sample_rng)"
    by (subst sample_choice) simp_all
  have 5: "choices_weighted channels [0.6, 0.3, 0.1] sample_rng = Inr (''Online'', sample_rng)"
    by (subst sample_choices_weighted) (simp_all add: channels_def accumulate_def)
  have 6: "choices_weighted offers [0.7, 0.15, 0.1, 0.05] sample_rng = Inr (''None'', sample_rng)"
    by (subst sample_choices_weighted) (simp_all add: offers_def accumulate_def)
  have 7: "subscript base_price ''Skincare'' = Inr 45"
    by (simp add: subscript_def base_price_def)
  have 8: "py_round2 (- 90) = - 90" "py_round2 810 = 810"
    by (simp_all add: py_round2_def round_half_even_def)
  have 9: "py_int 30 = 30" by (simp add: py_int_def)
  show ?thesis
    apply (simp only: sales_order_def 1 2 3 4 5 6 7 bind_result_Inr prod.case
        sample_normal sample_exponential)
    apply (simp add: 8 9 clamp_def sample_sale_def Let_def)
    done
qed


lemma sample_sales_loop:
  "sales_loop n ''Radiance'' d ''Summer Glow'' sample_rng = Inr (replicate n (sample_sale d), sample_rng)"
  by (induction n) (simp_all add: sample_sales_order)

lemma seasonal_bounds:
  "3 / 4 \<le> generate_seasonal_multiplier d \<and> generate_seasonal_multiplier d \<le> 5 / 4"
proof -
  define t where "t = sin (2 * pi * (of_int (tm_yday d) / 365) - pi / 2)"
  have "- 1 \<le> t" "t \<le> 1" unfolding t_def by simp_all
  moreover have "generate_seasonal_multiplier d = 1 + 0.25 * t"
    unfolding generate_seasonal_multiplier_def t_def ..
  ultimately show ?thesis by simp
qed

lemma weekday_factor_bounds: "0 < weekday_factor d \<and> weekday_factor d \<le> 11 / 10"
  by (simp add: weekday_factor_def)

lemma sample_daily_orders:
  "nat (py_int (clamp (80 * generate_seasonal_multiplier d * weekday_factor d - 20 * 15) 40 150)) = 40"
proof -
  have "generate_seasonal_multiplier d * weekday_factor d \<le> 5 / 4 * (11 / 10)"
    using seasonal_bounds[of d] weekday_factor_bounds[of d]
    by (intro mult_mono) simp_all
  then have "80 * generate_seasonal_multiplier d * weekday_factor d - 20 * 15 \<le> 40" by simp
  then have "clamp (80 * generate_seasonal_multiplier d * weekday_factor d - 20 * 15) 40 150 = 40"
    by (simp add: clamp_def)
  then show ?thesis by (simp add: py_int_def)
qed

lemma sample_marketing_row:
  assumes "sm \<le> 5 / 4" "c \<in> set marketing_channels"
  shows "marketing_row ''Radiance'' d ''Summer Glow'' sm c sample_rng
           = Inr (\<lparr>mkt_Brand = ''Radiance'', mkt_Date = d, mkt_Channel = c,
                    mkt_Campaign = ''Summer Glow'', Traffic = 100, CTR = 0.3,
                    CPC = (if c = ''Paid'' then Some 0.3 else None)\<rparr>, sample_rng)"
proof -
  from assms(2) obtain base where b: "subscript base_traffic c = Inr base" "0 < base"
    by (auto simp: marketing_channels_def subscript_def base_traffic_def)
  have le: "base * sm \<le> base * (5 / 4)" using assms(1) b(2) by (intro mult_left_mono) simp_all
  have "base * sm - 20 * (base * 0.1) = base * sm - 2 * base" by simp
  moreover have "base * (5 / 4) - 2 * base \<le> 0" using b(2) by simp
  ultimately have "base * sm - 20 * (base * 0.1) \<le> 100" using le by linarith
  then have t: "py_int (clamp (base * sm - 20 * (base * 0.1)) 100 5000) = 100"
    by (simp add: clamp_def py_int_def)
  have r: "py_round2 0.3 = 0.3" by (simp add: py_round2_def round_half_even_def)
  show ?thesis
    apply (simp only: marketing_row_def b(1) bind_result_Inr sample_normal sample_uniform prod.case t r)
    apply simp
    done
qed

lemma sample_marketing_loop:
  "sm \<le> 5 / 4 \<Longrightarrow> set cs \<subseteq> set marketing_channels \<Longrightarrow>
     marketing_loop cs ''Radiance'' d ''Summer Glow'' sm sample_rng
       = Inr (map (\<lambda>c. \<lparr>mkt_Brand = ''Radiance'', mkt_Date = d, mkt_Channel = c,
                mkt_Campaign = ''Summer Glow'', Traffic = 100, CTR = 0.3,
                CPC = (if c = ''Paid'' then Some 0.3 else None)\<rparr>) cs, sample_rng)"
  by (induction cs) (simp_all add: sample_marketing_row)

lemma sample_init_followers:
  "init_followers ps fol sample_rng
     = Inr ((\<lambda>q. if q \<in> set ps then Some 5000 else fol q), sample_rng)"
proof (induction ps arbitrary: fol)
  case Nil
  then show ?case by simp
next
  case (Cons p ps)
  have "(\<lambda>q. if q \<in> set ps then Some 5000 else (fol(p \<mapsto> 5000)) q)
      = (\<lambda>q. if q \<in> set (p # ps) then Some 5000 else fol q)"
    by (rule ext) simp
  then show ?case by (simp add: sample_randint Cons.IH)
qed

lemma sample_social_loop:
  "distinct ps \<Longrightarrow> \<forall>p \<in> set ps. fol p = Some f \<Longrightarrow> f' = py_int (of_int f * 1.0005) \<Longrightarrow>
     social_loop ps ''Radiance'' d fol sample_rng
       = Inr (map (\<lambda>p. \<lparr>soc_Brand = ''Radiance'', soc_Date = d, Platform = p,
                EngagementRate = 0.5, Followers = f'\<rparr>) ps,
              (\<lambda>q. if q \<in> set ps then Some f' else fol q),
              sample_rng)"
proof (induction ps arbitrary: fol)
  case Nil
  then show ?case by simp
next
  case (Cons p ps)
  have r: "py_round2 0.5 = 0.5" by (simp add: py_round2_def round_half_even_def)
  have fp: "fol p = Some f" using Cons.prems by simp
  have "distinct ps" "\<forall>q \<in> set ps. (fol(p \<mapsto> f')) q = Some f" using Cons.prems by auto
  from Cons.IH[OF this Cons.prems(3)]
  have ih: "social_loop ps ''Radiance'' d (fol(p \<mapsto> f')) sample_rng
       = Inr (map (\<lambda>p. \<lparr>soc_Brand = ''Radiance'', soc_Date = d, Platform = p,
                EngagementRate = 0.5, Followers = f'\<rparr>) ps,
              (\<lambda>q. if q \<in> set ps then Some f' else (fol(p \<mapsto> f')) q),
              sample_rng)" .
  have e: "(\<lambda>q. if q \<in> set ps then Some f' else (fol(p \<mapsto> f')) q)
      = (\<lambda>q. if q \<in> set (p # ps) then Some f' else fol q)"
    by (rule ext) simp
  show ?case
    apply (simp only: social_loop.simps fp option.case bind_result_Inr sample_uniform prod.case
        Let_def)
    apply (simp only: Cons.prems(3)[symmetric] ih bind_result_Inr prod.case e r list.map)
    done
qed

lemma sample_day_step:
  assumes "f' = py_int (of_int f * 1.0005)"
  shows "day_step ''Radiance'' d (sample_followers f) sample_rng
     = Inr (replicate 40 (sample_sale d), sample_marketing d, sample_social d f',
            sample_followers f', sample_rng)"
proof -
  have c: "choice campaigns sample_rng = Inr (''Summer Glow'', sample_rng)"
    by (subst sample_choice) (simp_all add: campaigns_def)
  have m: "marketing_loop marketing_channels ''Radiance'' d ''Summer Glow''
             (generate_seasonal_multiplier d) sample_rng = Inr (sample_marketing d, sample_rng)"
    unfolding sample_marketing_def using seasonal_bounds[of d]
    by (intro sample_marketing_loop) simp_all
  have a: "\<forall>p \<in> set social_platforms. sample_followers f p = Some f"
    by (simp add: sample_followers_def)
  have e: "(\<lambda>q. if q \<in> set social_platforms then Some f' else sample_followers f q)
      = sample_followers f'"
    by (rule ext) (simp add: sample_followers_def)
  have s: "social_loop social_platforms ''Radiance'' d (sample_followers f) sample_rng
      = Inr (sample_social d f', sample_followers f', sample_rng)"
    unfolding sample_social_def
    by (simp only: sample_social_loop[OF distinct_social_platforms a assms] e)
  show ?thesis
    by (simp only: day_step_def Let_def sample_normal prod.case sample_daily_orders c
        bind_result_Inr sample_sales_loop m s)
qed

lemma sample_grow: "5002 = py_int (of_int 5000 * 1.0005)" "5004 = py_int (of_int 5002 * 1.0005)"
  by (simp_all add: py_int_def)

lemma sample_date_loop:
  "date_loop [738886, 738887] ''Radiance'' (sample_followers 5000) sample_rng
     = Inr (replicate 40 (sample_sale 738886) @ replicate 40 (sample_sale 738887),
            sample_marketing 738886 @ sample_marketing 738887,
            sample_social 738886 5002 @ sample_social 738887 5004, sample_rng)"
  by (simp add: sample_day_step[OF sample_grow(1)] sample_day_step[OF sample_grow(2)])

lemma sample_choices_k:
  "dates \<noteq> [] \<Longrightarrow> choices_k dates k sample_rng = Inr (replicate k (hd dates), sample_rng)"
  by (induction k) (simp_all add: hd_conv_nth)

lemma sample_review_row: "review_row ''Radiance'' d sample_rng = Inr (sample_review d, sample_rng)"
proof -
  have 1: "choices_weighted sentiments sentiment_weights sample_rng = Inr (''Positive'', sample_rng)"
    by (subst sample_choices_weighted)
      (simp_all add: sentiments_def sentiment_weights_def accumulate_def)
  show ?thesis
    by (simp add: review_row_def 1 sample_randint subscript_def sample_review_def)
qed

lemma sample_reviews_loop:
  "reviews_loop ds ''Radiance'' sample_rng = Inr (map sample_review ds, sample_rng)"
  by (induction ds) (simp_all add: sample_review_row)

lemma sample_brand_step:
  "brand_step [738886, 738887] ''Radiance'' sample_rng
     = Inr (replicate 40 (sample_sale 738886) @ replicate 40 (sample_sale 738887),
            sample_marketing 738886 @ sample_marketing 738887,
            sample_social 738886 5002 @ sample_social 738887 5004,
            replicate 120 (sample_review 738886), sample_rng)"
proof -
  have i: "init_followers social_platforms Map.empty sample_rng
      = Inr (sample_followers 5000, sample_rng)"
    by (simp add: sample_init_followers sample_followers_def)
  have c: "choices_k [738886, 738887] 120 sample_rng = Inr (replicate 120 738886, sample_rng)"
    by (subst sample_choices_k) simp_all
  show ?thesis
    by (simp only: brand_step_def i bind_result_Inr prod.case sample_date_loop c
        sample_reviews_loop map_replicate)
qed

lemma sample_run:
  "generate_mock_data neg sample_rng 738886 2 (Some [''Radiance'']) = Inr (sample_output, sample_rng)"
proof -
  have d: "date_range neg 738886 2 = Inr [738886, 738887]"
    by (simp add: date_range_def upt_rec)
  have b: "brand_loop [''Radiance''] [738886, 738887] sample_rng
     = Inr (replicate 40 (sample_sale 738886) @ replicate 40 (sample_sale 738887),
            sample_marketing 738886 @ sample_marketing 738887,
            sample_social 738886 5002 @ sample_social 738887 5004,
            replicate 120 (sample_review 738886), sample_rng)"
    by (simp add: sample_brand_step)
  have n: "\<And>d. sample_marketing d \<noteq> []" "\<And>d f. sample_social d f \<noteq> []"
    by (simp_all add: sample_marketing_def sample_social_def marketing_channels_def
        social_platforms_def)
  show ?thesis
    unfolding generate_mock_data_def Let_def brands_or_default_def option.case d b bind_result_Inr
      prod.case
    by (simp add: to_datetime_Date_def DataFrame_def n sample_output_def)
qed

theorem sales_rows_consistent_witness:
  "generate_mock_data (Inl ValueError) sample_rng 738886 2 (Some [''Radiance''])
     = Inr (sample_output, sample_rng)
   \<and> sample_sale 738887 \<in> set (rows (sales_df sample_output))
   \<and> 1 \<le> Qty (sample_sale 738887)
   \<and> Revenue (sample_sale 738887)
       = py_round2 (UnitPrice (sample_sale 738887) * of_int (Qty (sample_sale 738887)))
   \<and> (\<exists>base. subscript base_price (Category (sample_sale 738887)) = Inr base
          \<and> base * 0.6 \<le> UnitPrice (sample_sale 738887)
          \<and> UnitPrice (sample_sale 738887) \<le> base * 1.5)"
proof -
  have m: "sample_sale 738887 \<in> set (rows (sales_df sample_output))"
    by (simp add: sample_output_def)
  from sales_rows_consistent[OF sample_run m] sample_run m show ?thesis by blast
qed

theorem marketing_rows_in_range_witness:
  "generate_mock_data (Inl ValueError) sample_rng 738886 2 (Some [''Radiance''])
     = Inr (sample_output, sample_rng)
   \<and> sample_marketing 738886 ! 1 \<in> set (rows (marketing_df sample_output))
   \<and> mkt_Channel (sample_marketing 738886 ! 1) = ''Paid''
   \<and> 100 \<le> Traffic (sample_marketing 738886 ! 1) \<and> Traffic (sample_marketing 738886 ! 1) \<le> 5000
   \<and> 0.3 \<le> CTR (sample_marketing 738886 ! 1) \<and> CTR (sample_marketing 738886 ! 1) \<le> 4.5
   \<and> CPC (sample_marketing 738886 ! 1) = Some 0.3"
proof -
  have m: "sample_marketing 738886 ! 1 \<in> set (rows (marketing_df sample_output))"
    by (simp add: sample_output_def sample_marketing_def marketing_channels_def)
  have c: "mkt_Channel (sample_marketing 738886 ! 1) = ''Paid''"
    "CPC (sample_marketing 738886 ! 1) = Some 0.3"
    by (simp_all add: sample_marketing_def marketing_channels_def)
  from marketing_rows_in_range[OF sample_run m] sample_run m c show ?thesis by blast
qed

section \<open>Brands and days of a finished run\<close>

lemma filter_conj: "filter (\<lambda>r. P r \<and> Q r) xs = filter Q (filter P xs)"
  by (induction xs) auto

lemma generate_brand:
  assumes "generate_mock_data neg g start days brands = Inr (out, g')"
    and "0 \<le> days" and "distinct (brands_or_default brands)"
    and "b \<in> set (brands_or_default brands)"
  shows "\<exists>g1 s m so rv g2.
           brand_step (map (\<lambda>i. start + int i) [0..<nat days]) b g1 = Inr (s, m, so, rv, g2)
           \<and> filter (\<lambda>r. Brand r = b) (rows (sales_df out)) = s
           \<and> filter (\<lambda>r. mkt_Brand r = b) (rows (marketing_df out)) = m
           \<and> filter (\<lambda>r. soc_Brand r = b) (rows (social_df out)) = so
           \<and> filter (\<lambda>r. rev_Brand r = b) (rows (reviews_df out)) = rv"
proof -
  from generate_shape[OF assms(1)] obtain dates where
    d: "date_range neg start days = Inr dates"
    and l: "brand_loop (brands_or_default brands) dates g
       = Inr (rows (sales_df out), rows (marketing_df out),
              rows (social_df out), rows (reviews_df out), g')" by blast
  from d assms(2) have "dates = map (\<lambda>i. start + int i) [0..<nat days]"
    by (simp add: date_range_def)
  with brand_loop_brand[OF l assms(3,4)] show ?thesis by simp
qed

lemma generate_brand_day:
  assumes "generate_mock_data neg g start days brands = Inr (out, g')"
    and "0 \<le> days" and "distinct (brands_or_default brands)"
    and "b \<in> set (brands_or_default brands)" and "start \<le> d" and "d < start + days"
  shows "\<exists>fol1 g1 s m so fol2 g2.
           day_step b d fol1 g1 = Inr (s, m, so, fol2, g2)
           \<and> filter (\<lambda>r. Brand r = b \<and> Date r = d) (rows (sales_df out)) = s
           \<and> filter (\<lambda>r. mkt_Brand r = b \<and> mkt_Date r = d) (rows (marketing_df out)) = m"
proof -
  define dates where "dates = map (\<lambda>i. start + int i) [0..<nat days]"
  from generate_brand[OF assms(1-4)] obtain g1 s m so rv g2 where
    st: "brand_step dates b g1 = Inr (s, m, so, rv, g2)"
    and f: "filter (\<lambda>r. Brand r = b) (rows (sales_df out)) = s"
       "filter (\<lambda>r. mkt_Brand r = b) (rows (marketing_df out)) = m"
    unfolding dates_def by blast
  have dr: "date_range neg start days = Inr dates" using assms(2)
    by (simp add: date_range_def dates_def)
  from date_range_facts[OF assms(2) dr] assms(5,6) have "distinct dates" "d \<in> set dates"
    by simp_all
  from brand_step_day[OF st this] f show ?thesis by (simp add: filter_conj)
qed

section \<open>The Social table\<close>

text \<open>
  C5. For every brand and platform, the Followers values of the generated Social table,
  taken in date order, never decrease from one day to the next. The brand names of a
  run are a set, so no name is listed twice; the rows of one brand and platform then
  stand in the table in strictly increasing date order, one per day.
\<close>

theorem followers_non_decreasing:
  assumes "generate_mock_data neg g start days brands = Inr (out, g')"
    and "0 \<le> days" and "distinct (brands_or_default brands)"
  shows "sorted_wrt (<) (map soc_Date
            (filter (\<lambda>r. soc_Brand r = b \<and> Platform r = p) (rows (social_df out))))
         \<and> sorted (map Followers
            (filter (\<lambda>r. soc_Brand r = b \<and> Platform r = p) (rows (social_df out))))"
proof (cases "b \<in> set (brands_or_default brands)")
  case True
  define dates where "dates = map (\<lambda>i. start + int i) [0..<nat days]"
  from generate_brand[OF assms True] obtain g1 s m so rv g2 where
    st: "brand_step dates b g1 = Inr (s, m, so, rv, g2)"
    and f: "filter (\<lambda>r. soc_Brand r = b) (rows (social_df out)) = so"
    unfolding dates_def by blast
  have dr: "date_range neg start days = Inr dates" using assms(2)
    by (simp add: date_range_def dates_def)
  from date_range_facts[OF assms(2) dr] have sd: "sorted_wrt (<) dates" by simp
  have e: "filter (\<lambda>r. soc_Brand r = b \<and> Platform r = p) (rows (social_df out))
      = filter (\<lambda>r. Platform r = p) so"
    by (simp add: filter_conj f)
  from brand_step_social_dates[OF st, of p] sd
  have "sorted_wrt (<) (map soc_Date (filter (\<lambda>r. Platform r = p) so))" by simp
  with brand_step_followers[OF st, of p] show ?thesis unfolding e by simp
next
  case False
  from generate_shape[OF assms(1)] obtain dates where
    "brand_loop (brands_or_default brands) dates g
       = Inr (rows (sales_df out), rows (marketing_df out),
              rows (social_df out), rows (reviews_df out), g')" by blast
  from brand_loop_keys[OF this] False
  have "filter (\<lambda>r. soc_Brand r = b \<and> Platform r = p) (rows (social_df out)) = []"
    by (intro filter_none) blast
  then show ?thesis by simp
qed

theorem followers_non_decreasing_witness:
  "generate_mock_data (Inl ValueError) sample_rng 738886 2 (Some [''Radiance''])
     = Inr (sample_output, sample_rng)
   \<and> map Followers (filter (\<lambda>r. soc_Brand r = ''Radiance'' \<and> Platform r = ''TikTok'')
          (rows (social_df sample_output))) = [5002, 5004]
   \<and> sorted (map Followers (filter (\<lambda>r. soc_Brand r = ''Radiance'' \<and> Platform r = ''TikTok'')
          (rows (social_df sample_output))))
   \<and> sorted_wrt (<) (map soc_Date (filter (\<lambda>r. soc_Brand r = ''Radiance'' \<and> Platform r = ''TikTok'')
          (rows (social_df sample_output))))"
proof -
  have d: "distinct (brands_or_default (Some [''Radiance'']))"
    by (simp add: brands_or_default_def)
  have v: "map Followers (filter (\<lambda>r. soc_Brand r = ''Radiance'' \<and> Platform r = ''TikTok'')
          (rows (social_df sample_output))) = [5002, 5004]"
    by (simp add: sample_output_def sample_social_def social_platforms_def)
  from followers_non_decreasing[OF sample_run _ d, of "''Radiance''" "''TikTok''"] sample_run v
  show ?thesis by simp
qed

section \<open>The Reviews table\<close>

text \<open>
  C6. For every brand of a run over at least one day, the generated Reviews table holds
  exactly 120 rows of that brand, so at most 120 distinct review dates, and each review
  date is one of the generated days. (Brand names are a set: none is listed twice.)
\<close>

theorem reviews_per_brand:
  assumes "generate_mock_data neg g start days brands = Inr (out, g')"
    and "0 < days" and "distinct (brands_or_default brands)"
    and "b \<in> set (brands_or_default brands)"
  shows "length (filter (\<lambda>r. rev_Brand r = b) (rows (reviews_df out))) = 120
         \<and> card (rev_Date ` set (filter (\<lambda>r. rev_Brand r = b) (rows (reviews_df out)))) \<le> 120
         \<and> (\<forall>r \<in> set (filter (\<lambda>r. rev_Brand r = b) (rows (reviews_df out))).
                start \<le> rev_Date r \<and> rev_Date r < start + days)"
proof -
  define dates where "dates = map (\<lambda>i. start + int i) [0..<nat days]"
  have nn: "0 \<le> days" using assms(2) by simp
  from generate_brand[OF assms(1) nn assms(3,4)] obtain g1 s m so rv g2 where
    st: "brand_step dates b g1 = Inr (s, m, so, rv, g2)"
    and f: "filter (\<lambda>r. rev_Brand r = b) (rows (reviews_df out)) = rv"
    unfolding dates_def by blast
  have dr: "date_range neg start days = Inr dates" using nn
    by (simp add: date_range_def dates_def)
  from date_range_facts[OF nn dr] have sd: "set dates = {start..<start + days}" by simp
  have l: "length rv = 120" using brand_step_reviews[OF st] .
  have "card (rev_Date ` set rv) \<le> card (set rv)" by (rule card_image_le) simp
  also have "\<dots> \<le> length rv" by (rule card_length)
  finally have c: "card (rev_Date ` set rv) \<le> 120" using l by simp
  from brand_step_keys[OF st] sd have "\<forall>r \<in> set rv. start \<le> rev_Date r \<and> rev_Date r < start + days"
    by auto
  with l c show ?thesis unfolding f by blast
qed

theorem reviews_per_brand_witness:
  "generate_mock_data (Inl ValueError) sample_rng 738886 2 (Some [''Radiance''])
     = Inr (sample_output, sample_rng)
   \<and> length (filter (\<lambda>r. rev_Brand r = ''Radiance'') (rows (reviews_df sample_output))) = 120
   \<and> card (rev_Date ` set (filter (\<lambda>r. rev_Brand r = ''Radiance'')
        (rows (reviews_df sample_output)))) \<le> 120
   \<and> rev_Date (hd (filter (\<lambda>r. rev_Brand r = ''Radiance'') (rows (reviews_df sample_output))))
       = 738886"
proof -
  have d: "distinct (brands_or_default (Some [''Radiance'']))"
    "''Radiance'' \<in> set (brands_or_default (Some [''Radiance'']))"
    by (simp_all add: brands_or_default_def)
  have h: "rev_Date (hd (filter (\<lambda>r. rev_Brand r = ''Radiance'') (rows (reviews_df sample_output))))
       = 738886"
    by (simp add: sample_output_def sample_review_def)
  from reviews_per_brand[OF sample_run _ d] sample_run h show ?thesis by simp
qed

section \<open>The campaign of a brand-day\<close>

text \<open>
  C7. For every brand of the run and every generated day there is exactly one campaign
  of the fixed catalog that every Sales row and every Marketing row of that brand on
  that day carries. (Brand names are a set: none is listed twice.)
\<close>

theorem one_campaign_per_brand_day:
  assumes "generate_mock_data neg g start days brands = Inr (out, g')"
    and "0 \<le> days" and "distinct (brands_or_default brands)"
    and "b \<in> set (brands_or_default brands)" and "start \<le> d" and "d < start + days"
  shows "\<exists>!c. c \<in> set campaigns
           \<and> (\<forall>r \<in> set (rows (sales_df out)). Brand r = b \<and> Date r = d \<longrightarrow> Campaign r = c)
           \<and> (\<forall>r \<in> set (rows (marketing_df out)).
                  mkt_Brand r = b \<and> mkt_Date r = d \<longrightarrow> mkt_Campaign r = c)"
proof -
  from generate_brand_day[OF assms] obtain fol1 g1 s m so fol2 g2 where
    day: "day_step b d fol1 g1 = Inr (s, m, so, fol2, g2)"
    and fs: "filter (\<lambda>r. Brand r = b \<and> Date r = d) (rows (sales_df out)) = s"
    and fm: "filter (\<lambda>r. mkt_Brand r = b \<and> mkt_Date r = d) (rows (marketing_df out)) = m"
    by blast
  from day_step_facts[OF day] obtain camp x where
    c: "camp \<in> set campaigns"
    and l: "int (length s) = py_int (clamp (80 * generate_seasonal_multiplier d * weekday_factor d
                   + 15 * x) 40 150)"
    and s: "\<forall>r \<in> set s. \<exists>g1 g2. sales_order b d camp g1 = Inr (r, g2)"
    and m: "\<forall>r \<in> set m. \<exists>c g1 g2.
              marketing_row b d camp (generate_seasonal_multiplier d) c g1 = Inr (r, g2)"
    by blast
  have sc: "\<forall>r \<in> set s. Campaign r = camp" using s sales_order_keys by blast
  have mc: "\<forall>r \<in> set m. mkt_Campaign r = camp" using m marketing_row_keys by blast
  have S: "\<forall>r \<in> set (rows (sales_df out)). Brand r = b \<and> Date r = d \<longrightarrow> Campaign r = camp"
    using sc unfolding fs[symmetric] by simp
  have M: "\<forall>r \<in> set (rows (marketing_df out)).
      mkt_Brand r = b \<and> mkt_Date r = d \<longrightarrow> mkt_Campaign r = camp"
    using mc unfolding fm[symmetric] by simp
  from l daily_orders_bounds[of "80 * generate_seasonal_multiplier d * weekday_factor d + 15 * x"]
  have "s \<noteq> []" by auto
  then obtain r0 where r0: "r0 \<in> set s" by (cases s) auto
  then have r0': "r0 \<in> set (rows (sales_df out))" "Brand r0 = b \<and> Date r0 = d"
    unfolding fs[symmetric] by simp_all
  show ?thesis
  proof (rule ex1I[of _ camp])
    show "camp \<in> set campaigns
        \<and> (\<forall>r \<in> set (rows (sales_df out)). Brand r = b \<and> Date r = d \<longrightarrow> Campaign r = camp)
        \<and> (\<forall>r \<in> set (rows (marketing_df out)).
               mkt_Brand r = b \<and> mkt_Date r = d \<longrightarrow> mkt_Campaign r = camp)"
      using c S M by blast
  next
    fix c'
    assume "c' \<in> set campaigns
        \<and> (\<forall>r \<in> set (rows (sales_df out)). Brand r = b \<and> Date r = d \<longrightarrow> Campaign r = c')
        \<and> (\<forall>r \<in> set (rows (marketing_df out)).
               mkt_Brand r = b \<and> mkt_Date r = d \<longrightarrow> mkt_Campaign r = c')"
    with r0' have "Campaign r0 = c'" by blast
    moreover from S r0' have "Campaign r0 = camp" by blast
    ultimately show "c' = camp" by simp
  qed
qed

theorem one_campaign_per_brand_day_witness:
  "generate_mock_data (Inl ValueError) sample_rng 738886 2 (Some [''Radiance''])
     = Inr (sample_output, sample_rng)
   \<and> (\<exists>!c. c \<in> set campaigns
         \<and> (\<forall>r \<in> set (rows (sales_df sample_output)).
                Brand r = ''Radiance'' \<and> Date r = 738887 \<longrightarrow> Campaign r = c)
         \<and> (\<forall>r \<in> set (rows (marketing_df sample_output)).
                mkt_Brand r = ''Radiance'' \<and> mkt_Date r = 738887 \<longrightarrow> mkt_Campaign r = c))
   \<and> Campaign (sample_sale 738887) = ''Summer Glow''
   \<and> mkt_Campaign (hd (sample_marketing 738887)) = ''Summer Glow''"
proof -
  have d: "distinct (brands_or_default (Some [''Radiance'']))"
    "''Radiance'' \<in> set (brands_or_default (Some [''Radiance'']))"
    by (simp_all add: brands_or_default_def)
  have c: "Campaign (sample_sale 738887) = ''Summer Glow''"
    "mkt_Campaign (hd (sample_marketing 738887)) = ''Summer Glow''"
    by (simp_all add: sample_sale_def sample_marketing_def marketing_channels_def)
  have u: "\<exists>!c. c \<in> set campaigns
         \<and> (\<forall>r \<in> set (rows (sales_df sample_output)).
                Brand r = ''Radiance'' \<and> Date r = 738887 \<longrightarrow> Campaign r = c)
         \<and> (\<forall>r \<in> set (rows (marketing_df sample_output)).
                mkt_Brand r = ''Radiance'' \<and> mkt_Date r = 738887 \<longrightarrow> mkt_Campaign r = c)"
    by (rule one_campaign_per_brand_day[OF sample_run _ d]) simp_all
  from sample_run u c show ?thesis by (intro conjI)
qed

section \<open>The daily order count\<close>

text \<open>
  C8. For every brand of the run and every generated day, the number of Sales rows of
  that brand on that day is an integer from 40 to 150, whatever the seasonal and the
  weekday multiplier are: it is a normal draw centred at 80 times the two multipliers
  with standard deviation 15, clamped to [40, 150] and truncated. (Brand names are a
  set: none is listed twice.)
\<close>

theorem daily_orders_in_range:
  assumes "generate_mock_data neg g start days brands = Inr (out, g')"
    and "0 \<le> days" and "distinct (brands_or_default brands)"
    and "b \<in> set (brands_or_default brands)" and "start \<le> d" and "d < start + days"
  shows "40 \<le> length (filter (\<lambda>r. Brand r = b \<and> Date r = d) (rows (sales_df out)))
         \<and> length (filter (\<lambda>r. Brand r = b \<and> Date r = d) (rows (sales_df out))) \<le> 150
         \<and> (\<exists>z. int (length (filter (\<lambda>r. Brand r = b \<and> Date r = d) (rows (sales_df out))))
                = py_int (clamp (80 * generate_seasonal_multiplier d * weekday_factor d + 15 * z)
                    40 150))"
proof -
  from generate_brand_day[OF assms] obtain fol1 g1 s m so fol2 g2 where
    day: "day_step b d fol1 g1 = Inr (s, m, so, fol2, g2)"
    and fs: "filter (\<lambda>r. Brand r = b \<and> Date r = d) (rows (sales_df out)) = s"
    by blast
  from day_step_facts[OF day] obtain z where
    l: "int (length s) = py_int (clamp (80 * generate_seasonal_multiplier d * weekday_factor d
                   + 15 * z) 40 150)"
    by blast
  from l daily_orders_bounds[of "80 * generate_seasonal_multiplier d * weekday_factor d + 15 * z"]
  have "40 \<le> length s" "length s \<le> 150" by linarith+
  with l show ?thesis unfolding fs by blast
qed

theorem daily_orders_in_range_witness:
  "generate_mock_data (Inl ValueError) sample_rng 738886 2 (Some [''Radiance''])
     = Inr (sample_output, sample_rng)
   \<and> length (filter (\<lambda>r. Brand r = ''Radiance'' \<and> Date r = 738886)
        (rows (sales_df sample_output))) = 40
   \<and> (\<exists>z. int (length (filter (\<lambda>r. Brand r = ''Radiance'' \<and> Date r = 738886)
              (rows (sales_df sample_output))))
          = py_int (clamp (80 * generate_seasonal_multiplier 738886 * weekday_factor 738886
              + 15 * z) 40 150))"
proof -
  have d: "distinct (brands_or_default (Some [''Radiance'']))"
    "''Radiance'' \<in> set (brands_or_default (Some [''Radiance'']))"
    by (simp_all add: brands_or_default_def)
  have n: "length (filter (\<lambda>r. Brand r = ''Radiance'' \<and> Date r = 738886)
        (rows (sales_df sample_output))) = 40"
    by (simp add: sample_output_def sample_sale_def)
  have r: "40 \<le> length (filter (\<lambda>r. Brand r = ''Radiance'' \<and> Date r = 738886)
          (rows (sales_df sample_output)))
      \<and> length (filter (\<lambda>r. Brand r = ''Radiance'' \<and> Date r = 738886)
          (rows (sales_df sample_output))) \<le> 150
      \<and> (\<exists>z. int (length (filter (\<lambda>r. Brand r = ''Radiance'' \<and> Date r = 738886)
              (rows (sales_df sample_output))))
          = py_int (clamp (80 * generate_seasonal_multiplier 738886 * weekday_factor 738886
              + 15 * z) 40 150))"
    by (rule daily_orders_in_range[OF sample_run _ d]) simp_all
  from sample_run n r show ?thesis by (intro conjI) blast+
qed

end
